theory Spec2Isabelle
  imports Main "HOL-Library.Word"
begin

unbundle bit_operations_syntax

section \<open>Bytes, strings and error values\<close>

text \<open>
  A Go \<open>[]byte\<close> is a list of 8-bit words, a Go \<open>string\<close> a list of 8-bit characters.
  The conversions \<open>[]byte(s)\<close> and \<open>string(b)\<close> copy byte by byte.
\<close>

type_synonym byte = "8 word"
type_synonym bytes = "byte list"

definition bytes_of_string :: "string \<Rightarrow> bytes" where
  "bytes_of_string s = map (\<lambda>c. word_of_nat (of_char c)) s"

definition string_of_bytes :: "bytes \<Rightarrow> string" where
  "string_of_bytes b = map (\<lambda>w. char_of (unat w)) b"

text \<open>
  Error values. \<open>New m\<close> is \<open>errors.New(m)\<close>; \<open>Errorf m a\<close> is
  \<open>fmt.Errorf(m + ": %s", a)\<close>; \<open>Wrap m e\<close> is \<open>fmt.Errorf(m + ": %w", e)\<close>;
  \<open>External m\<close> is an error value handed back by the operating system or by a
  library outside this package, \<open>KeySizeError n\<close> the one of \<open>crypto/aes\<close>.
  \<open>Panic m\<close> is not an error value: it stands for a run-time panic, which no
  \<open>err != nil\<close> test of the package sees and which ends the call.
\<close>

datatype error =
    New string
  | Errorf string string
  | Wrap string error
  | External string
  | KeySizeError nat
  | Panic string

section \<open>Constants\<close>

definition MagicBytes :: string where
  "MagicBytes = ''CLOAK01''"

definition SaltSize :: nat where
  "SaltSize = 32"

definition NonceSize :: nat where
  "NonceSize = 12"

definition KeySize :: nat where
  "KeySize = 32"

definition argonTime :: nat where
  "argonTime = 3"

definition argonMemory :: nat where
  "argonMemory = 64 * 1024"

definition argonThreads :: nat where
  "argonThreads = 4"

section \<open>The container codec\<close>

text \<open>
  \<open>binary.BigEndian.PutUint64\<close> and \<open>binary.BigEndian.Uint64\<close> of
  \<open>encoding/binary\<close>. \<open>Uint64\<close> reads the first eight bytes of its argument and
  panics (here \<open>None\<close>) on a shorter one.
\<close>

definition PutUint64 :: "64 word \<Rightarrow> bytes" where
  "PutUint64 v =
     [ucast (drop_bit 56 v), ucast (drop_bit 48 v), ucast (drop_bit 40 v),
      ucast (drop_bit 32 v), ucast (drop_bit 24 v), ucast (drop_bit 16 v),
      ucast (drop_bit 8 v), ucast v]"

fun Uint64 :: "bytes \<Rightarrow> 64 word option" where
  "Uint64 (b0 # b1 # b2 # b3 # b4 # b5 # b6 # b7 # _) =
     Some (ucast b7 OR push_bit 8 (ucast b6) OR push_bit 16 (ucast b5) OR
           push_bit 24 (ucast b4) OR push_bit 32 (ucast b3) OR push_bit 40 (ucast b2) OR
           push_bit 48 (ucast b1) OR push_bit 56 (ucast b0))"
| "Uint64 _ = None"

text \<open>
  The slice expression \<open>data[i:j]\<close> for \<open>i \<le> j \<le> len(data)\<close>.
\<close>

definition slice :: "'a list \<Rightarrow> nat \<Rightarrow> nat \<Rightarrow> 'a list" where
  "slice xs i j = take (j - i) (drop i xs)"

text \<open>
  The writes of \<open>Encrypt\<close> to the output file, in the order the source performs them:
  the magic, the salt, the nonce, the eight bytes of the size, the ciphertext.
  \<open>uint64(len(ciphertext))\<close> converts a Go \<open>int\<close> to a 64-bit word.
\<close>

definition container_writes :: "bytes \<Rightarrow> bytes \<Rightarrow> bytes \<Rightarrow> bytes list" where
  "container_writes salt nonce ciphertext =
     [bytes_of_string MagicBytes, salt, nonce,
      PutUint64 (word_of_nat (length ciphertext)), ciphertext]"

definition encode :: "bytes \<Rightarrow> bytes \<Rightarrow> bytes \<Rightarrow> bytes" where
  "encode salt nonce ciphertext = concat (container_writes salt nonce ciphertext)"

text \<open>
  The header parsing of \<open>Decrypt\<close>: the size check, the magic check, the three
  header fields and the comparison of the declared size with the bytes that remain.
\<close>

definition headerSize :: nat where
  "headerSize = length MagicBytes + SaltSize + NonceSize + 8"

definition decode :: "bytes \<Rightarrow> error + (bytes \<times> bytes \<times> bytes)" where
  "decode data =
     (if length data < headerSize then
        Inl (New ''invalid file: too small to be a valid encrypted file'')
      else if string_of_bytes (slice data 0 (length MagicBytes)) \<noteq> MagicBytes then
        Inl (New ''invalid file: not a valid .cloak file'')
      else
        let off0 = length MagicBytes;
            salt = slice data off0 (off0 + SaltSize);
            off1 = off0 + SaltSize;
            nonce = slice data off1 (off1 + NonceSize);
            off2 = off1 + NonceSize;
            off3 = off2 + 8;
            ciphertext = drop off3 data
        in (case Uint64 (slice data off2 (off2 + 8)) of
              None \<Rightarrow> Inl (Panic ''index out of range'')
            | Some expectedSize \<Rightarrow>
                if (word_of_nat (length ciphertext) :: 64 word) \<noteq> expectedSize then
                  Inl (New ''invalid file: size mismatch, file may be corrupted'')
                else Inr (salt, nonce, ciphertext)))"

text \<open>
  The three messages with which \<open>Decrypt\<close> refuses a malformed container.
\<close>

definition FormatError :: "error \<Rightarrow> bool" where
  "FormatError e =
     (e = New ''invalid file: too small to be a valid encrypted file'' \<or>
      e = New ''invalid file: not a valid .cloak file'' \<or>
      e = New ''invalid file: size mismatch, file may be corrupted'')"

text \<open>
  The value of a byte sequence read as a big-endian unsigned number, and the same in a
  64-bit word.
\<close>

definition be_nat :: "bytes \<Rightarrow> nat" where
  "be_nat bs = foldl (\<lambda>a b. 256 * a + unat b) 0 bs"

definition be_word :: "bytes \<Rightarrow> 64 word" where
  "be_word bs = foldl (\<lambda>a b. push_bit 8 a OR ucast b) 0 bs"

text \<open>
  A container is malformed when it is shorter than the header, when its first seven
  bytes are not the magic, or when the big-endian number in bytes 51 to 58 is not the
  number of bytes after the header.
\<close>

definition malformed :: "bytes \<Rightarrow> bool" where
  "malformed data =
     (length data < 7 + 32 + 12 + 8 \<or>
      take 7 data \<noteq> bytes_of_string ''CLOAK01'' \<or>
      be_nat (slice data 51 59) \<noteq> length data - 59)"

section \<open>Memory and the secret buffer\<close>

text \<open>
  Go slices share their backing arrays, and wiping is an effect on the array: the
  memory is a store from addresses to arrays, and a slice is the address of its array
  and its length (every slice the package wipes starts at index 0 of its array).
  \<open>alloc\<close> is a fresh array, as \<open>make\<close> or a library call returns it.
\<close>

type_synonym addr = nat

record slice_ref =
  arr :: addr
  len :: nat

record mem =
  heap :: "addr \<Rightarrow> bytes"
  next_free :: addr

definition alloc :: "bytes \<Rightarrow> mem \<Rightarrow> slice_ref \<times> mem" where
  "alloc b m =
     (\<lparr>arr = next_free m, len = length b\<rparr>,
      m\<lparr>heap := (heap m)(next_free m := b), next_free := Suc (next_free m)\<rparr>)"

definition read_slice :: "mem \<Rightarrow> slice_ref \<Rightarrow> bytes" where
  "read_slice m sl = take (len sl) (heap m (arr sl))"

text \<open>
  The loop \<open>for i := range d { d[i] = 0 }\<close> over a slice of length \<open>n\<close>.
\<close>

definition zero_loop :: "nat \<Rightarrow> bytes \<Rightarrow> bytes" where
  "zero_loop n d = fold (\<lambda>i b. b[i := 0]) [0..<n] d"

definition zero_slice :: "slice_ref \<Rightarrow> mem \<Rightarrow> mem" where
  "zero_slice sl m = m\<lparr>heap := (heap m)(arr sl := zero_loop (len sl) (heap m (arr sl)))\<rparr>"

text \<open>
  \<open>SecureBytes\<close>: the field \<open>Data\<close> is \<open>nil\<close> or a slice. \<open>Wipe\<close> changes the
  array of the slice and the field; \<open>runtime.KeepAlive\<close> has no effect on either.
\<close>

record SecureBytes =
  Data :: "slice_ref option"

definition Wipe :: "SecureBytes \<times> mem \<Rightarrow> SecureBytes \<times> mem" where
  "Wipe sm =
     (case Data (fst sm) of
        None \<Rightarrow> sm
      | Some sl \<Rightarrow> ((fst sm)\<lparr>Data := None\<rparr>, zero_slice sl (snd sm)))"

section \<open>The libraries outside the package\<close>

text \<open>
  \<open>golang.org/x/crypto/argon2\<close>, \<open>crypto/aes\<close> and \<open>crypto/cipher\<close> are not part
  of the package. Their computations are parameters of the model: \<open>argon2id\<close> is the
  hash behind \<open>argon2.IDKey\<close> (password, salt, time, memory in KiB, threads, key
  length), \<open>gcm_seal\<close> and \<open>gcm_open\<close> are AES-GCM under a key and a nonce, with
  \<open>None\<close> for a failed authentication (a ciphertext too short or too long to be
  one included). The checks the Go functions make on their arguments before
  computing, and the panics they end in, are written out below.
\<close>

record crypto_lib =
  argon2id :: "bytes \<Rightarrow> bytes \<Rightarrow> nat \<Rightarrow> nat \<Rightarrow> nat \<Rightarrow> nat \<Rightarrow> bytes"
  gcm_seal :: "bytes \<Rightarrow> bytes \<Rightarrow> bytes \<Rightarrow> bytes"
  gcm_open :: "bytes \<Rightarrow> bytes \<Rightarrow> bytes \<Rightarrow> bytes option"

definition argon2_IDKey ::
  "crypto_lib \<Rightarrow> bytes \<Rightarrow> bytes \<Rightarrow> nat \<Rightarrow> nat \<Rightarrow> nat \<Rightarrow> nat \<Rightarrow> error + bytes" where
  "argon2_IDKey L password salt time memory threads keyLen =
     (if time < 1 then Inl (Panic ''argon2: number of rounds too small'')
      else if threads < 1 then Inl (Panic ''argon2: parallelism degree too low'')
      else Inr (argon2id L password salt time memory threads keyLen))"

definition aes_NewCipher :: "bytes \<Rightarrow> error + bytes" where
  "aes_NewCipher key =
     (if length key = 16 \<or> length key = 24 \<or> length key = 32 then Inr key
      else Inl (KeySizeError (length key)))"

definition cipher_NewGCM :: "bytes \<Rightarrow> error + bytes" where
  "cipher_NewGCM block = Inr block"

definition gcm_max_plaintext :: nat where
  "gcm_max_plaintext = (2 ^ 32 - 2) * 16"

definition gcm_Seal :: "crypto_lib \<Rightarrow> bytes \<Rightarrow> bytes \<Rightarrow> bytes \<Rightarrow> error + bytes" where
  "gcm_Seal L gcm nonce plaintext =
     (if length nonce \<noteq> 12 then
        Inl (Panic ''crypto/cipher: incorrect nonce length given to GCM'')
      else if length plaintext > gcm_max_plaintext then
        Inl (Panic ''crypto/cipher: message too large for GCM'')
      else Inr (gcm_seal L gcm nonce plaintext))"

definition gcm_Open :: "crypto_lib \<Rightarrow> bytes \<Rightarrow> bytes \<Rightarrow> bytes \<Rightarrow> error + bytes" where
  "gcm_Open L gcm nonce ciphertext =
     (if length nonce \<noteq> 12 then
        Inl (Panic ''crypto/cipher: incorrect nonce length given to GCM'')
      else (case gcm_open L gcm nonce ciphertext of
              None \<Rightarrow> Inl (External ''cipher: message authentication failed'')
            | Some plaintext \<Rightarrow> Inr plaintext))"

section \<open>Key derivation and the authenticated cipher\<close>

text \<open>
  \<open>DeriveKey\<close> returns a pointer to a new \<open>SecureBytes\<close> that holds the key in a
  fresh array. It has no error result; a panic of the library would end it.
\<close>

definition DeriveKey ::
  "crypto_lib \<Rightarrow> bytes \<Rightarrow> bytes \<Rightarrow> mem \<Rightarrow> (error + SecureBytes) \<times> mem" where
  "DeriveKey L password salt m =
     (case argon2_IDKey L password salt argonTime argonMemory argonThreads KeySize of
        Inl p \<Rightarrow> (Inl p, m)
      | Inr key \<Rightarrow> (let (sl, m') = alloc key m in (Inr \<lparr>Data = Some sl\<rparr>, m')))"

definition EncryptData :: "crypto_lib \<Rightarrow> bytes \<Rightarrow> bytes \<Rightarrow> bytes \<Rightarrow> error + bytes" where
  "EncryptData L plaintext key nonce =
     (case aes_NewCipher key of
        Inl e \<Rightarrow> Inl (Wrap ''failed to create AES cipher'' e)
      | Inr block \<Rightarrow>
          (case cipher_NewGCM block of
             Inl e \<Rightarrow> Inl (Wrap ''failed to create GCM'' e)
           | Inr gcm \<Rightarrow> gcm_Seal L gcm nonce plaintext))"

definition DecryptData :: "crypto_lib \<Rightarrow> bytes \<Rightarrow> bytes \<Rightarrow> bytes \<Rightarrow> error + bytes" where
  "DecryptData L ciphertext key nonce =
     (case aes_NewCipher key of
        Inl e \<Rightarrow> Inl (Wrap ''failed to create AES cipher'' e)
      | Inr block \<Rightarrow>
          (case cipher_NewGCM block of
             Inl e \<Rightarrow> Inl (Wrap ''failed to create GCM'' e)
           | Inr gcm \<Rightarrow>
               (case gcm_Open L gcm nonce ciphertext of
                  Inl (Panic p) \<Rightarrow> Inl (Panic p)
                | Inl _ \<Rightarrow> Inl (New ''decryption failed: invalid password or corrupted file'')
                | Inr plaintext \<Rightarrow> Inr plaintext)))"

text \<open>
  What the package relies on from the libraries. \<open>argon2_length\<close>: the hash has
  the length asked for. \<open>gcm_correct\<close>: opening what was sealed, under the same
  key and nonce, gives the plaintext back.
\<close>

definition argon2_length :: "crypto_lib \<Rightarrow> bool" where
  "argon2_length L =
     (\<forall>password salt t m p n. length (argon2id L password salt t m p n) = n)"

definition gcm_correct :: "crypto_lib \<Rightarrow> bool" where
  "gcm_correct L =
     (\<forall>key nonce plaintext.
        gcm_open L key nonce (gcm_seal L key nonce plaintext) = Some plaintext)"

text \<open>
  A library instance to evaluate the definitions on: the hash repeats one byte, the
  seal prefixes the plaintext with the key and the nonce. It has the two properties
  above and none of the strength of the real functions.
\<close>

definition toy_lib :: crypto_lib where
  "toy_lib =
     \<lparr>argon2id = (\<lambda>password salt t m p n. replicate n (word_of_nat (length password + length salt))),
      gcm_seal = (\<lambda>key nonce plaintext. key @ nonce @ plaintext),
      gcm_open = (\<lambda>key nonce ciphertext.
         if take (length key + length nonce) ciphertext = key @ nonce
         then Some (drop (length key + length nonce) ciphertext) else None)\<rparr>"

text \<open>
  The bytes a call of \<open>DeriveKey\<close> hands to its caller: what the \<open>Data\<close> of the
  returned \<open>SecureBytes\<close> holds in the memory after the call.
\<close>

definition derived_key :: "crypto_lib \<Rightarrow> bytes \<Rightarrow> bytes \<Rightarrow> mem \<Rightarrow> bytes option" where
  "derived_key L password salt m =
     (case DeriveKey L password salt m of
        (Inr s, m') \<Rightarrow> (case Data s of None \<Rightarrow> None | Some sl \<Rightarrow> Some (read_slice m' sl))
      | (Inl p, m') \<Rightarrow> None)"

definition mem0 :: mem where
  "mem0 = \<lparr>heap = (\<lambda>a. []), next_free = 0\<rparr>"

section \<open>Paths\<close>

text \<open>
  The functions of \<open>strings\<close> and \<open>path/filepath\<close> the package calls, as they
  behave on Unix, where the separator is the slash and there are no volume names.
  \<open>Clean\<close>, \<open>Join\<close>, \<open>Dir\<close>, \<open>Base\<close> and \<open>Rel\<close> work on the elements between
  the separators; the library's loops over byte positions compute the same elements.
\<close>

definition sep :: char where
  "sep = CHR ''/''"

definition HasPrefix :: "string \<Rightarrow> string \<Rightarrow> bool" where
  "HasPrefix s prefix = (length prefix \<le> length s \<and> take (length prefix) s = prefix)"

definition HasSuffix :: "string \<Rightarrow> string \<Rightarrow> bool" where
  "HasSuffix s suffix =
     (length suffix \<le> length s \<and> drop (length s - length suffix) s = suffix)"

definition TrimSuffix :: "string \<Rightarrow> string \<Rightarrow> string" where
  "TrimSuffix s suffix =
     (if HasSuffix s suffix then take (length s - length suffix) s else s)"

definition IsAbs :: "string \<Rightarrow> bool" where
  "IsAbs path = HasPrefix path [sep]"

fun split_sep :: "string \<Rightarrow> string list" where
  "split_sep [] = [[]]"
| "split_sep (c # cs) =
     (if c = sep then [] # split_sep cs
      else (case split_sep cs of [] \<Rightarrow> [[c]] | e # es \<Rightarrow> (c # e) # es))"

fun join_sep :: "string list \<Rightarrow> string" where
  "join_sep [] = []"
| "join_sep [e] = e"
| "join_sep (e # es) = e @ sep # join_sep es"

definition rooted :: "string \<Rightarrow> bool" where
  "rooted path = (case path of [] \<Rightarrow> False | c # _ \<Rightarrow> c = sep)"

text \<open>
  The loop of \<open>Clean\<close> over the elements of a path, with the elements written so
  far: an empty element and \<open>.\<close> are dropped; \<open>..\<close> removes the element before
  it when that is a name, is kept at the front of a relative path, and is dropped at
  the root.
\<close>

fun clean_elems :: "bool \<Rightarrow> string list \<Rightarrow> string list \<Rightarrow> string list" where
  "clean_elems r out [] = out"
| "clean_elems r out (e # es) =
     (if e = [] \<or> e = ''.'' then clean_elems r out es
      else if e = ''..'' then
        (if out \<noteq> [] \<and> last out \<noteq> ''..'' then clean_elems r (butlast out) es
         else if \<not> r then clean_elems r (out @ [''..'']) es
         else clean_elems r out es)
      else clean_elems r (out @ [e]) es)"

definition render :: "bool \<Rightarrow> string list \<Rightarrow> string" where
  "render r out = (if r then sep # join_sep out else if out = [] then ''.'' else join_sep out)"

definition Clean :: "string \<Rightarrow> string" where
  "Clean path =
     (if path = [] then ''.''
      else render (rooted path) (clean_elems (rooted path) [] (split_sep path)))"

text \<open>
  \<open>filepath.Join\<close> of two elements: empty elements at the front are ignored, the rest
  is joined by the separator and cleaned.
\<close>

definition Join2 :: "string \<Rightarrow> string \<Rightarrow> string" where
  "Join2 a b =
     (if a \<noteq> [] then Clean (a @ sep # b)
      else if b \<noteq> [] then Clean b
      else [])"

text \<open>
  \<open>filepath.Dir\<close>: the path up to and including its last separator, cleaned.
  \<open>filepath.Base\<close>: the last element, after the trailing separators are removed.
\<close>

definition dir_prefix :: "string \<Rightarrow> string" where
  "dir_prefix path = rev (dropWhile (\<lambda>c. c \<noteq> sep) (rev path))"

definition Dir :: "string \<Rightarrow> string" where
  "Dir path = Clean (dir_prefix path)"

definition Base :: "string \<Rightarrow> string" where
  "Base path =
     (if path = [] then ''.''
      else let stripped = rev (dropWhile (\<lambda>c. c = sep) (rev path));
               b = rev (takeWhile (\<lambda>c. c \<noteq> sep) (rev stripped))
           in if b = [] then [sep] else b)"

text \<open>
  \<open>filepath.Rel\<close>: both paths are cleaned; equal paths give \<open>.\<close>; a cleaned path
  \<open>.\<close> counts as the empty path; a rooted and an unrooted path cannot be related;
  otherwise the common leading elements are dropped, each element left of the base
  becomes \<open>..\<close>, and the elements left of the target follow. When the first element
  left of the base is \<open>..\<close> the result is an error, whether or not elements of the
  target are left.
\<close>

definition elems :: "string \<Rightarrow> string list" where
  "elems path = filter (\<lambda>e. e \<noteq> []) (split_sep path)"

fun strip_common :: "string list \<Rightarrow> string list \<Rightarrow> string list \<times> string list" where
  "strip_common (b # bs) (t # ts) =
     (if b = t then strip_common bs ts else (b # bs, t # ts))"
| "strip_common bs ts = (bs, ts)"

definition Rel :: "string \<Rightarrow> string \<Rightarrow> error + string" where
  "Rel basepath targpath =
     (let base = Clean basepath; targ = Clean targpath in
      if targ = base then Inr ''.''
      else
        let base1 = (if base = ''.'' then [] else base);
            targ1 = (if targ = ''.'' then [] else targ) in
        if rooted base1 \<noteq> rooted targ1 then
          Inl (External (''Rel: can't make '' @ targpath @ '' relative to '' @ basepath))
        else
          (case strip_common (elems base1) (elems targ1) of
             (bs, ts) \<Rightarrow>
               if bs \<noteq> [] \<and> hd bs = ''..'' then
                 Inl (External (''Rel: can't make '' @ targpath @ '' relative to '' @ basepath))
               else if bs \<noteq> [] then
                 Inr (join_sep (replicate (length bs) ''..'' @ ts))
               else Inr (join_sep ts)))"

section \<open>The archive\<close>

text \<open>
  A tar header as far as the package reads and writes it, and an entry of an archive:
  a header and the bytes that follow it. \<open>TypeOther\<close> stands for every type flag
  that \<open>ExtractArchive\<close> has no case for.
\<close>

datatype typeflag = TypeReg | TypeDir | TypeSymlink | TypeOther

record header =
  Name :: string
  Typeflag :: typeflag
  Mode :: nat
  Linkname :: string

type_synonym entry = "header \<times> bytes"

text \<open>
  \<open>archive/tar\<close> and \<open>compress/gzip\<close> are outside the package and parameters of
  the model. \<open>write_header_error\<close> is the error of \<open>tar.Writer.WriteHeader\<close> on a
  header, if any; \<open>tar_close_error\<close> and \<open>gzip_close_error\<close> are the errors of
  \<open>tar.Writer.Close\<close> and \<open>gzip.Writer.Close\<close> after the entries written, if any;
  \<open>tgz_encode\<close> is the compressed archive of the entries written;
  \<open>tgz_decode\<close> is what the readers give on a byte sequence: the error of
  \<open>gzip.NewReader\<close>, or the entries that \<open>tar.Reader.Next\<close> returns one after
  the other and what ends them, \<open>io.EOF\<close> (\<open>None\<close>) or an error.
\<close>

record archive_lib =
  write_header_error :: "header \<Rightarrow> error option"
  tar_close_error :: "entry list \<Rightarrow> error option"
  gzip_close_error :: "entry list \<Rightarrow> error option"
  tgz_encode :: "entry list \<Rightarrow> bytes"
  tgz_decode :: "bytes \<Rightarrow> error + (entry list \<times> error option)"

text \<open>
  The directory tree that \<open>filepath.Walk\<close> finds under the path it is given, with
  what happens when the walk reads it. Every node that \<open>Lstat\<close> describes has its
  permission bits. A directory lists its entries by name, in the lexical order in
  which \<open>Walk\<close> visits them. \<open>Special\<close> is a node that is no regular file,
  directory or symbolic link (a device, a pipe, a socket). The other nodes are those
  an operation fails on, with the error of the operation: \<open>NoLstat\<close> a path that
  \<open>Lstat\<close> fails on, \<open>NoNames\<close> a directory whose names cannot be read,
  \<open>NoHeader\<close> a node that \<open>tar.FileInfoHeader\<close> refuses, \<open>NoReadlink\<close> a
  symbolic link that \<open>os.Readlink\<close> fails on, \<open>NoOpen\<close> a regular file that
  \<open>os.Open\<close> fails on, \<open>NoCopy\<close> a regular file that opens and whose copy into the
  archive fails.
\<close>

datatype node =
    File nat bytes
  | Symlink nat string
  | Directory nat "(string \<times> node) list"
  | Special nat
  | NoLstat error
  | NoNames nat error
  | NoHeader error
  | NoReadlink nat error
  | NoOpen nat error
  | NoCopy nat error

text \<open>
  \<open>filepath.Walk\<close>: the paths visited with their nodes, a directory before its
  entries, each entry under \<open>Join(path, name)\<close>. A path that \<open>Lstat\<close> fails on
  and a directory whose names cannot be read are visited once; \<open>walk_error\<close> is
  the error \<open>Walk\<close> hands to the walk function there.
\<close>

fun walk :: "string \<Rightarrow> node \<Rightarrow> (string \<times> node) list" where
  "walk path (Directory m entries) =
     (path, Directory m entries) #
     concat (map (\<lambda>(name, n). walk (Join2 path name) n) entries)"
| "walk path n = [(path, n)]"

fun walk_error :: "node \<Rightarrow> error option" where
  "walk_error (NoLstat e) = Some e"
| "walk_error (NoNames m e) = Some e"
| "walk_error _ = None"

text \<open>
  \<open>tar.FileInfoHeader\<close> on a node, a header or an error; the walk function of
  \<open>ArchiveDirectory\<close> then overwrites \<open>Name\<close> and, for a symbolic link,
  \<open>Linkname\<close>. \<open>readlink\<close> is the result of \<open>os.Readlink\<close> on a symbolic link
  (\<open>None\<close> on a node that is not one); \<open>read_regular\<close> is what \<open>os.Open\<close> and
  \<open>io.Copy\<close> give on a regular file (\<open>None\<close> on a node that is not one). For a
  path that \<open>Lstat\<close> fails on there is no \<open>FileInfo\<close>, and the walk function
  returns the error of \<open>Walk\<close> before it asks for a header.
\<close>

fun FileInfoHeader :: "node \<Rightarrow> error + header" where
  "FileInfoHeader (File m content) =
     Inr \<lparr>Name = [], Typeflag = TypeReg, Mode = m, Linkname = []\<rparr>"
| "FileInfoHeader (NoOpen m e) =
     Inr \<lparr>Name = [], Typeflag = TypeReg, Mode = m, Linkname = []\<rparr>"
| "FileInfoHeader (NoCopy m e) =
     Inr \<lparr>Name = [], Typeflag = TypeReg, Mode = m, Linkname = []\<rparr>"
| "FileInfoHeader (Symlink m target) =
     Inr \<lparr>Name = [], Typeflag = TypeSymlink, Mode = m, Linkname = []\<rparr>"
| "FileInfoHeader (NoReadlink m e) =
     Inr \<lparr>Name = [], Typeflag = TypeSymlink, Mode = m, Linkname = []\<rparr>"
| "FileInfoHeader (Directory m entries) =
     Inr \<lparr>Name = [], Typeflag = TypeDir, Mode = m, Linkname = []\<rparr>"
| "FileInfoHeader (NoNames m e) =
     Inr \<lparr>Name = [], Typeflag = TypeDir, Mode = m, Linkname = []\<rparr>"
| "FileInfoHeader (Special m) =
     Inr \<lparr>Name = [], Typeflag = TypeOther, Mode = m, Linkname = []\<rparr>"
| "FileInfoHeader (NoHeader e) = Inl e"
| "FileInfoHeader (NoLstat e) = Inl e"

fun readlink :: "node \<Rightarrow> (error + string) option" where
  "readlink (Symlink m target) = Some (Inr target)"
| "readlink (NoReadlink m e) = Some (Inl e)"
| "readlink _ = None"

datatype file_read = Contents bytes | OpenError error | CopyError error

fun read_regular :: "node \<Rightarrow> file_read option" where
  "read_regular (File m content) = Some (Contents content)"
| "read_regular (NoOpen m e) = Some (OpenError e)"
| "read_regular (NoCopy m e) = Some (CopyError e)"
| "read_regular _ = None"

text \<open>
  The walk function of \<open>ArchiveDirectory\<close> on one visited path: the entry it writes
  to the archive, or the error it returns. In the order of the source: the error
  \<open>Walk\<close> hands over, \<open>tar.FileInfoHeader\<close>, \<open>filepath.Rel\<close>, \<open>os.Readlink\<close> for
  a symbolic link, \<open>WriteHeader\<close>, then \<open>os.Open\<close> and \<open>io.Copy\<close> for a regular
  file.
\<close>

definition archive_node :: "archive_lib \<Rightarrow> string \<Rightarrow> string \<times> node \<Rightarrow> error + entry" where
  "archive_node A dirPath pn =
     (case walk_error (snd pn) of
        Some e \<Rightarrow> Inl e
      | None \<Rightarrow>
     (case FileInfoHeader (snd pn) of
        Inl e \<Rightarrow> Inl (Wrap ''failed to create tar header'' e)
      | Inr header \<Rightarrow>
     (case Rel (Dir dirPath) (fst pn) of
        Inl e \<Rightarrow> Inl e
      | Inr relPath \<Rightarrow>
     (case (case readlink (snd pn) of
              None \<Rightarrow> Inr (header\<lparr>Name := relPath\<rparr>)
            | Some (Inl e) \<Rightarrow> Inl e
            | Some (Inr link) \<Rightarrow> Inr (header\<lparr>Name := relPath, Linkname := link\<rparr>)) of
        Inl e \<Rightarrow> Inl e
      | Inr header \<Rightarrow>
     (case write_header_error A header of
        Some e \<Rightarrow> Inl (Wrap ''failed to write tar header'' e)
      | None \<Rightarrow>
     (case read_regular (snd pn) of
        None \<Rightarrow> Inr (header, [])
      | Some (OpenError e) \<Rightarrow> Inl e
      | Some (CopyError e) \<Rightarrow> Inl (Wrap ''failed to write file to archive'' e)
      | Some (Contents content) \<Rightarrow> Inr (header, content)))))))"

text \<open>
  The walk stops at the first error of the walk function.
\<close>

fun archive_nodes :: "archive_lib \<Rightarrow> string \<Rightarrow> (string \<times> node) list \<Rightarrow> error + entry list" where
  "archive_nodes A dirPath [] = Inr []"
| "archive_nodes A dirPath (pn # pns) =
     (case archive_node A dirPath pn of
        Inl e \<Rightarrow> Inl e
      | Inr en \<Rightarrow>
          (case archive_nodes A dirPath pns of
             Inl e \<Rightarrow> Inl e
           | Inr ens \<Rightarrow> Inr (en # ens)))"

definition archive_entries :: "archive_lib \<Rightarrow> string \<Rightarrow> node \<Rightarrow> error + entry list" where
  "archive_entries A dirPath tree = archive_nodes A dirPath (walk dirPath tree)"

text \<open>
  \<open>ArchiveDirectory\<close>: the error of the walk, or of closing the tar writer, or of
  closing the gzip writer, or the bytes of the buffer.
\<close>

definition ArchiveDirectory :: "archive_lib \<Rightarrow> string \<Rightarrow> node \<Rightarrow> error + bytes" where
  "ArchiveDirectory A dirPath tree =
     (case archive_entries A dirPath tree of
        Inl e \<Rightarrow> Inl e
      | Inr ens \<Rightarrow>
          (case tar_close_error A ens of
             Some e \<Rightarrow> Inl (Wrap ''failed to close tar writer'' e)
           | None \<Rightarrow>
               (case gzip_close_error A ens of
                  Some e \<Rightarrow> Inl (Wrap ''failed to close gzip writer'' e)
                | None \<Rightarrow> Inr (tgz_encode A ens))))"

section \<open>Extraction\<close>

text \<open>
  The calls of \<open>ExtractArchive\<close> that change the file system, and of \<open>Encrypt\<close>
  that write the container. \<open>OpenFile\<close> is the one with the flags
  \<open>O_CREATE|O_WRONLY|O_TRUNC\<close>, \<open>Copy\<close> is \<open>io.Copy\<close> of an entry's bytes into the
  file opened at the path, \<open>Create\<close> is \<open>os.Create\<close> and \<open>Write\<close> a write to the
  file created at the path. The operating system is a parameter: from the calls made
  so far and a call, the error of the call, if any. A run is the list of its calls.
\<close>

datatype fs_call =
    MkdirAll string nat
  | OpenFile string nat
  | Copy string bytes
  | Close string
  | Remove string
  | MkSymlink string string
  | Create string
  | Write string bytes

type_synonym os = "fs_call list \<Rightarrow> fs_call \<Rightarrow> error option"

definition call :: "os \<Rightarrow> fs_call \<Rightarrow> fs_call list \<Rightarrow> error option \<times> fs_call list" where
  "call sys c hist = (sys hist c, hist @ [c])"

definition perm_0755 :: nat where
  "perm_0755 = 7 * 64 + 5 * 8 + 5"

text \<open>
  The \<open>switch\<close> of \<open>ExtractArchive\<close> on the type flag of an entry whose path was
  accepted.
\<close>

definition extract_entry ::
  "os \<Rightarrow> string \<Rightarrow> header \<Rightarrow> bytes \<Rightarrow> fs_call list \<Rightarrow> error option \<times> fs_call list" where
  "extract_entry sys targetPath h body hist =
     (case Typeflag h of
        TypeDir \<Rightarrow>
          (case call sys (MkdirAll targetPath (Mode h)) hist of
             (Some e, hist1) \<Rightarrow> (Some (Wrap ''failed to create directory'' e), hist1)
           | (None, hist1) \<Rightarrow> (None, hist1))
      | TypeReg \<Rightarrow>
          (case call sys (MkdirAll (Dir targetPath) perm_0755) hist of
             (Some e, hist1) \<Rightarrow> (Some e, hist1)
           | (None, hist1) \<Rightarrow>
               (case call sys (OpenFile targetPath (Mode h)) hist1 of
                  (Some e, hist2) \<Rightarrow> (Some (Wrap ''failed to create file'' e), hist2)
                | (None, hist2) \<Rightarrow>
                    (case call sys (Copy targetPath body) hist2 of
                       (Some e, hist3) \<Rightarrow>
                         (Some (Wrap ''failed to write file'' e),
                          snd (call sys (Close targetPath) hist3))
                     | (None, hist3) \<Rightarrow> (None, snd (call sys (Close targetPath) hist3)))))
      | TypeSymlink \<Rightarrow>
          (case call sys (MkdirAll (Dir targetPath) perm_0755) hist of
             (Some e, hist1) \<Rightarrow> (Some e, hist1)
           | (None, hist1) \<Rightarrow>
               (case call sys (MkSymlink (Linkname h) targetPath)
                       (snd (call sys (Remove targetPath) hist1)) of
                  (Some e, hist2) \<Rightarrow> (Some (Wrap ''failed to create symlink'' e), hist2)
                | (None, hist2) \<Rightarrow> (None, hist2)))
      | TypeOther \<Rightarrow> (None, hist))"

text \<open>
  The loop of \<open>ExtractArchive\<close> over the entries the tar reader returns, ended by
  \<open>io.EOF\<close> or by an error of the reader.
\<close>

fun extract_loop ::
  "os \<Rightarrow> string \<Rightarrow> entry list \<Rightarrow> error option \<Rightarrow> fs_call list \<Rightarrow>
   error option \<times> fs_call list" where
  "extract_loop sys destDir [] ending hist =
     (case ending of
        None \<Rightarrow> (None, hist)
      | Some e \<Rightarrow> (Some (Wrap ''failed to read tar entry'' e), hist))"
| "extract_loop sys destDir ((h, body) # rest) ending hist =
     (let cleanName = Clean (Name h) in
      if HasPrefix cleanName ''..'' \<or> IsAbs cleanName then
        (Some (Errorf ''invalid path in archive'' (Name h)), hist)
      else
        let targetPath = Join2 destDir cleanName in
        (case extract_entry sys targetPath h body hist of
           (Some e, hist1) \<Rightarrow> (Some e, hist1)
         | (None, hist1) \<Rightarrow> extract_loop sys destDir rest ending hist1))"

definition ExtractArchive ::
  "archive_lib \<Rightarrow> os \<Rightarrow> bytes \<Rightarrow> string \<Rightarrow> fs_call list \<Rightarrow> error option \<times> fs_call list" where
  "ExtractArchive A sys data destDir hist =
     (case tgz_decode A data of
        Inl e \<Rightarrow> (Some (Wrap ''failed to create gzip reader'' e), hist)
      | Inr (entries, ending) \<Rightarrow> extract_loop sys destDir entries ending hist)"

text \<open>
  A cleaned path escapes when it is \<open>..\<close> or begins with \<open>../\<close>.
\<close>

definition escapes :: "string \<Rightarrow> bool" where
  "escapes cleaned = (cleaned = ''..'' \<or> HasPrefix cleaned ''../'')"

text \<open>
  An archive library to evaluate the definitions on: an entry is written as its type,
  its mode in two bytes, and its name, link name and bytes, each after one byte with
  its length. An operating system on which every call succeeds.
\<close>

definition toy_field :: "bytes \<Rightarrow> bytes" where
  "toy_field b = word_of_nat (length b) # b"

fun toy_tag :: "typeflag \<Rightarrow> byte" where
  "toy_tag TypeReg = 0"
| "toy_tag TypeDir = 1"
| "toy_tag TypeSymlink = 2"
| "toy_tag TypeOther = 3"

definition toy_untag :: "byte \<Rightarrow> typeflag" where
  "toy_untag b = (if b = 0 then TypeReg else if b = 1 then TypeDir
                  else if b = 2 then TypeSymlink else TypeOther)"

definition toy_entry :: "entry \<Rightarrow> bytes" where
  "toy_entry en =
     (case en of (h, body) \<Rightarrow>
        [toy_tag (Typeflag h), word_of_nat (Mode h div 256), word_of_nat (Mode h mod 256)] @
        toy_field (bytes_of_string (Name h)) @ toy_field (bytes_of_string (Linkname h)) @
        toy_field body)"

definition toy_take_field :: "bytes \<Rightarrow> bytes \<times> bytes" where
  "toy_take_field b =
     (case b of [] \<Rightarrow> ([], []) | n # rest \<Rightarrow> (take (unat n) rest, drop (unat n) rest))"

fun toy_parse :: "nat \<Rightarrow> bytes \<Rightarrow> entry list option" where
  "toy_parse fuel [] = Some []"
| "toy_parse 0 (b # bs) = None"
| "toy_parse (Suc fuel) (t # mh # ml # rest) =
     (case toy_take_field rest of (name, r1) \<Rightarrow>
      case toy_take_field r1 of (link, r2) \<Rightarrow>
      case toy_take_field r2 of (body, r3) \<Rightarrow>
        map_option
          (\<lambda>ens. (\<lparr>Name = string_of_bytes name, Typeflag = toy_untag t,
                     Mode = unat mh * 256 + unat ml,
                     Linkname = string_of_bytes link\<rparr>, body) # ens)
          (toy_parse fuel r3))"
| "toy_parse (Suc fuel) bs = None"

definition toy_archive :: archive_lib where
  "toy_archive =
     \<lparr>write_header_error = (\<lambda>h. None),
      tar_close_error = (\<lambda>ens. None),
      gzip_close_error = (\<lambda>ens. None),
      tgz_encode = (\<lambda>ens. concat (map toy_entry ens)),
      tgz_decode = (\<lambda>b. case toy_parse (length b) b of
                            None \<Rightarrow> Inl (External ''gzip: invalid header'')
                          | Some ens \<Rightarrow> Inr (ens, None))\<rparr>"

definition all_ok :: os where
  "all_ok hist c = None"

text \<open>
  Entries to evaluate the extraction on.
\<close>

definition ok_entry :: entry where
  "ok_entry = (\<lparr>Name = ''ok.txt'', Typeflag = TypeReg, Mode = 420, Linkname = []\<rparr>, [1, 2, 3])"

definition bad_entry :: "string \<Rightarrow> entry" where
  "bad_entry name = (\<lparr>Name = name, Typeflag = TypeReg, Mode = 420, Linkname = []\<rparr>, [9])"

text \<open>
  The composition the tests of the package run (\<open>TestFullEncryptDecryptCycle\<close>):
  archive a directory, encrypt under the key derived from a password and a salt,
  decrypt under the key derived again, extract into a destination.
\<close>

definition round_trip ::
  "archive_lib \<Rightarrow> crypto_lib \<Rightarrow> os \<Rightarrow> string \<Rightarrow> node \<Rightarrow> bytes \<Rightarrow> bytes \<Rightarrow> bytes \<Rightarrow> string \<Rightarrow>
   error option \<times> fs_call list" where
  "round_trip A L sys dirPath tree password salt nonce destDir =
     (case ArchiveDirectory A dirPath tree of
        Inl e \<Rightarrow> (Some e, [])
      | Inr archive \<Rightarrow>
          (case derived_key L password salt mem0 of
             None \<Rightarrow> (Some (Panic ''argon2''), [])
           | Some key \<Rightarrow>
               (case EncryptData L archive key nonce of
                  Inl e \<Rightarrow> (Some e, [])
                | Inr ciphertext \<Rightarrow>
                    (case derived_key L password salt mem0 of
                       None \<Rightarrow> (Some (Panic ''argon2''), [])
                     | Some key2 \<Rightarrow>
                         (case DecryptData L ciphertext key2 nonce of
                            Inl e \<Rightarrow> (Some e, [])
                          | Inr decrypted \<Rightarrow>
                              ExtractArchive A sys decrypted destDir [])))))"

text \<open>
  A directory named \<open>..config\<close> that holds one file.
\<close>

definition dotdot_tree :: node where
  "dotdot_tree = Directory 493 [(''a.txt'', File 420 [104, 105])]"

definition dotdot_entries :: "entry list" where
  "dotdot_entries =
     [(\<lparr>Name = ''..config'', Typeflag = TypeDir, Mode = 493, Linkname = []\<rparr>, []),
      (\<lparr>Name = ''..config/a.txt'', Typeflag = TypeReg, Mode = 420, Linkname = []\<rparr>,
       [104, 105])]"

section \<open>Encrypt and Decrypt\<close>

text \<open>
  What the two operations find outside the package: the libraries, the operating
  system that answers the calls that change the file system, the result of
  \<open>os.Stat\<close> on a path (an error, or whether the path is a directory), of
  \<open>os.Getwd\<close>, of \<open>os.ReadFile\<close>, the tree that \<open>filepath.Walk\<close> finds at a path
  (or the error of its first \<open>Lstat\<close>), whether standard input is a terminal, what
  the \<open>n\<close>-th \<open>term.ReadPassword\<close> returns, and what the \<open>n\<close>-th \<open>rand.Read\<close>
  returns for a size.
\<close>

record env =
  crypto :: crypto_lib
  archiver :: archive_lib
  opsys :: os
  stat :: "string \<Rightarrow> error + bool"
  getwd :: "error + string"
  file_content :: "string \<Rightarrow> error + bytes"
  tree_at :: "string \<Rightarrow> error + node"
  is_terminal :: bool
  typed :: "nat \<Rightarrow> error + bytes"
  random :: "nat \<Rightarrow> nat \<Rightarrow> error + bytes"

text \<open>
  What the operations change: the memory, the calls made to the file system, the
  prompts printed, and how many times random bytes were drawn.
\<close>

record world =
  memory :: mem
  calls :: "fs_call list"
  prompts :: "string list"
  drawn :: nat

text \<open>
  How a call of \<open>Encrypt\<close> or \<open>Decrypt\<close> ends: the error returned (or a panic),
  the world it leaves, and the slice of its local variable \<open>archive\<close>, when the
  call got as far as assigning it.
\<close>

record exit_state =
  result :: "error option"
  final :: world
  archive_var :: "slice_ref option"

definition ret :: "error option \<Rightarrow> world \<Rightarrow> slice_ref option \<Rightarrow> exit_state" where
  "ret r w a = \<lparr>result = r, final = w, archive_var = a\<rparr>"

text \<open>
  \<open>defer s.Wipe()\<close>: whatever the rest of the function does, \<open>Wipe\<close> runs on the
  memory it leaves. \<open>defer outFile.Close()\<close> likewise.
\<close>

definition defer_Wipe :: "SecureBytes \<Rightarrow> exit_state \<Rightarrow> exit_state" where
  "defer_Wipe s ex =
     ex\<lparr>final := (final ex)\<lparr>memory := snd (Wipe (s, memory (final ex)))\<rparr>\<rparr>"

definition defer_Close :: "env \<Rightarrow> string \<Rightarrow> exit_state \<Rightarrow> exit_state" where
  "defer_Close E path ex =
     ex\<lparr>final := (final ex)\<lparr>calls := snd (call (opsys E) (Close path) (calls (final ex)))\<rparr>\<rparr>"

definition data_bytes :: "mem \<Rightarrow> SecureBytes \<Rightarrow> bytes" where
  "data_bytes m s = (case Data s of None \<Rightarrow> [] | Some sl \<Rightarrow> read_slice m sl)"

definition ReadPasswordSecure :: "env \<Rightarrow> string \<Rightarrow> world \<Rightarrow> (error + SecureBytes) \<times> world" where
  "ReadPasswordSecure E prompt w =
     (let w1 = w\<lparr>prompts := prompts w @ [prompt]\<rparr> in
      if \<not> is_terminal E then
        (Inl (New ''password input requires a terminal (stdin must be a TTY)''), w1)
      else
        (case typed E (length (prompts w)) of
           Inl e \<Rightarrow> (Inl (Wrap ''failed to read password'' e), w1)
         | Inr password \<Rightarrow>
             if length password = 0 then (Inl (New ''password cannot be empty''), w1)
             else (case alloc password (memory w1) of
                     (sl, m) \<Rightarrow> (Inr \<lparr>Data = Some sl\<rparr>, w1\<lparr>memory := m\<rparr>))))"

definition GenerateRandomBytes :: "env \<Rightarrow> nat \<Rightarrow> world \<Rightarrow> (error + bytes) \<times> world" where
  "GenerateRandomBytes E n w =
     (let w1 = w\<lparr>drawn := Suc (drawn w)\<rparr> in
      case random E (drawn w) n of
        Inl e \<Rightarrow> (Inl (Wrap ''failed to generate random bytes'' e), w1)
      | Inr b \<Rightarrow> (Inr b, w1))"

definition ConstantTimeCompare :: "bytes \<Rightarrow> bytes \<Rightarrow> nat" where
  "ConstantTimeCompare x y = (if length x \<noteq> length y then 0 else if x = y then 1 else 0)"

definition Abs :: "env \<Rightarrow> string \<Rightarrow> error + string" where
  "Abs E path =
     (if IsAbs path then Inr (Clean path)
      else (case getwd E of Inl e \<Rightarrow> Inl e | Inr wd \<Rightarrow> Inr (Join2 wd path)))"

definition output_path :: "string \<Rightarrow> string" where
  "output_path absPath = TrimSuffix absPath [sep] @ ''.cloak''"

text \<open>
  The writes of \<open>Encrypt\<close> to the file it created; the first that fails ends them.
\<close>

fun write_all :: "os \<Rightarrow> string \<Rightarrow> bytes list \<Rightarrow> fs_call list \<Rightarrow> error option \<times> fs_call list" where
  "write_all s path [] hist = (None, hist)"
| "write_all s path (b # bs) hist =
     (case call s (Write path b) hist of
        (Some e, hist1) \<Rightarrow> (Some e, hist1)
      | (None, hist1) \<Rightarrow> write_all s path bs hist1)"

text \<open>
  \<open>Encrypt\<close> from the line that draws the salt, with the archive in memory.
\<close>

definition Encrypt_archived ::
  "env \<Rightarrow> string \<Rightarrow> SecureBytes \<Rightarrow> slice_ref \<Rightarrow> world \<Rightarrow> exit_state" where
  "Encrypt_archived E outputPath password archive w =
     (case GenerateRandomBytes E SaltSize w of
        (Inl e, w1) \<Rightarrow> ret (Some e) w1 (Some archive)
      | (Inr salt, w1) \<Rightarrow>
     (case GenerateRandomBytes E NonceSize w1 of
        (Inl e, w2) \<Rightarrow> ret (Some e) w2 (Some archive)
      | (Inr nonce, w2) \<Rightarrow>
     (case DeriveKey (crypto E) (data_bytes (memory w2) password) salt (memory w2) of
        (Inl p, m3) \<Rightarrow> ret (Some p) (w2\<lparr>memory := m3\<rparr>) (Some archive)
      | (Inr key, m3) \<Rightarrow>
          defer_Wipe key
            (case EncryptData (crypto E) (read_slice m3 archive) (data_bytes m3 key) nonce of
               Inl e \<Rightarrow> ret (Some e) (w2\<lparr>memory := m3\<rparr>) (Some archive)
             | Inr ciphertext \<Rightarrow>
                 let w4 = w2\<lparr>memory := zero_slice archive m3\<rparr> in
                 (case call (opsys E) (Create outputPath) (calls w4) of
                    (Some e, hist) \<Rightarrow>
                      ret (Some (Wrap ''failed to create output file'' e))
                        (w4\<lparr>calls := hist\<rparr>) (Some archive)
                  | (None, hist) \<Rightarrow>
                      defer_Close E outputPath
                        (case write_all (opsys E) outputPath
                                (container_writes salt nonce ciphertext) hist of
                           (r, hist1) \<Rightarrow> ret r (w4\<lparr>calls := hist1\<rparr>) (Some archive)))))))"

definition Encrypt :: "env \<Rightarrow> string \<Rightarrow> world \<Rightarrow> exit_state" where
  "Encrypt E folderPath w =
     (case stat E folderPath of
        Inl e \<Rightarrow> ret (Some (Wrap ''cannot access folder'' e)) w None
      | Inr isDir \<Rightarrow>
     if \<not> isDir then ret (Some (New ''path is not a directory'')) w None
     else
     (case Abs E folderPath of
        Inl e \<Rightarrow> ret (Some e) w None
      | Inr absPath \<Rightarrow>
     let outputPath = output_path absPath in
     (case stat E outputPath of
        Inr info \<Rightarrow> ret (Some (Errorf ''output file already exists'' outputPath)) w None
      | Inl e \<Rightarrow>
     (case ReadPasswordSecure E ''Enter encryption password: '' w of
        (Inl e, w1) \<Rightarrow> ret (Some e) w1 None
      | (Inr password, w1) \<Rightarrow>
          defer_Wipe password
     (case ReadPasswordSecure E ''Confirm password: '' w1 of
        (Inl e, w2) \<Rightarrow> ret (Some e) w2 None
      | (Inr confirmPassword, w2) \<Rightarrow>
          defer_Wipe confirmPassword
     (if ConstantTimeCompare (data_bytes (memory w2) password)
           (data_bytes (memory w2) confirmPassword) \<noteq> 1
      then ret (Some (New ''passwords do not match'')) w2 None
      else
     (case (case tree_at E folderPath of
              Inl e \<Rightarrow> Inl e
            | Inr tree \<Rightarrow> ArchiveDirectory (archiver E) folderPath tree) of
        Inl e \<Rightarrow> ret (Some (Wrap ''failed to archive directory'' e)) w2 None
      | Inr blob \<Rightarrow>
          (case alloc blob (memory w2) of
             (archive, m) \<Rightarrow>
               Encrypt_archived E outputPath password archive (w2\<lparr>memory := m\<rparr>)))))))))"

text \<open>
  \<open>Decrypt\<close> from the call of \<open>DecryptData\<close>, with the password read and the key
  derived.
\<close>

definition Decrypt_keyed ::
  "env \<Rightarrow> string \<Rightarrow> bytes \<Rightarrow> bytes \<Rightarrow> SecureBytes \<Rightarrow> world \<Rightarrow> exit_state" where
  "Decrypt_keyed E filePath ciphertext nonce key w =
     (case DecryptData (crypto E) ciphertext (data_bytes (memory w) key) nonce of
        Inl e \<Rightarrow> ret (Some e) w None
      | Inr plain \<Rightarrow>
     (case alloc plain (memory w) of
        (archive, m) \<Rightarrow>
     let w1 = w\<lparr>memory := m\<rparr> in
     (case Abs E filePath of
        Inl e \<Rightarrow> ret (Some e) w1 (Some archive)
      | Inr absPath \<Rightarrow>
     let outputDir = Dir absPath in
     (case ExtractArchive (archiver E) (opsys E) (read_slice m archive) outputDir (calls w1) of
        (Some e, hist) \<Rightarrow>
          ret (Some (Wrap ''failed to extract archive'' e)) (w1\<lparr>calls := hist\<rparr>) (Some archive)
      | (None, hist) \<Rightarrow>
          ret None (w1\<lparr>calls := hist, memory := zero_slice archive m\<rparr>) (Some archive)))))"

definition Decrypt :: "env \<Rightarrow> string \<Rightarrow> world \<Rightarrow> exit_state" where
  "Decrypt E filePath w =
     (case stat E filePath of
        Inl e \<Rightarrow> ret (Some (Wrap ''cannot access file'' e)) w None
      | Inr isDir \<Rightarrow>
     if isDir then ret (Some (New ''path is a directory, expected encrypted file'')) w None
     else
     (case file_content E filePath of
        Inl e \<Rightarrow> ret (Some (Wrap ''failed to read file'' e)) w None
      | Inr data \<Rightarrow>
     (case decode data of
        Inl e \<Rightarrow> ret (Some e) w None
      | Inr (salt, nonce, ciphertext) \<Rightarrow>
     (case ReadPasswordSecure E ''Enter decryption password: '' w of
        (Inl e, w1) \<Rightarrow> ret (Some e) w1 None
      | (Inr password, w1) \<Rightarrow>
          defer_Wipe password
     (case DeriveKey (crypto E) (data_bytes (memory w1) password) salt (memory w1) of
        (Inl p, m2) \<Rightarrow> ret (Some p) (w1\<lparr>memory := m2\<rparr>) None
      | (Inr key, m2) \<Rightarrow>
          defer_Wipe key
            (Decrypt_keyed E filePath ciphertext nonce key (w1\<lparr>memory := m2\<rparr>)))))))"

text \<open>
  An environment to evaluate the two operations on. The directory \<open>/home/u/docs\<close>
  exists, \<open>/home/u/old\<close> exists beside \<open>/home/u/old.cloak\<close>, and the file
  \<open>/home/u/evil.cloak\<close> is a well-formed container, sealed under the key of the
  password typed, whose archive has the one entry \<open>../x\<close>.
\<close>

definition evil_archive :: bytes where
  "evil_archive = tgz_encode toy_archive [bad_entry ''../x'']"

definition evil_container :: bytes where
  "evil_container =
     encode (replicate 32 7) (replicate 12 9)
       (gcm_seal toy_lib (argon2id toy_lib [112, 119] (replicate 32 7) 3 65536 4 32)
          (replicate 12 9) evil_archive)"

definition toy_env :: env where
  "toy_env =
     \<lparr>crypto = toy_lib, archiver = toy_archive, opsys = all_ok,
      stat = (\<lambda>p. if p = ''/home/u/docs'' \<or> p = ''/home/u/old'' then Inr True
                  else if p = ''/home/u/old.cloak'' \<or> p = ''/home/u/evil.cloak'' \<or>
                          p = ''/home/u/notes.txt'' then Inr False
                  else Inl (External ''no such file or directory'')),
      getwd = Inr ''/home/u'',
      file_content = (\<lambda>p. if p = ''/home/u/evil.cloak'' then Inr evil_container
                          else Inl (External ''no such file or directory'')),
      tree_at = (\<lambda>p. Inr dotdot_tree),
      is_terminal = True,
      typed = (\<lambda>n. Inr [112, 119]),
      random = (\<lambda>k n. Inr (replicate n (word_of_nat k + 7)))\<rparr>"

definition world0 :: world where
  "world0 = \<lparr>memory = mem0, calls = [], prompts = [], drawn = 0\<rparr>"

section \<open>What a round trip should give\<close>

text \<open>
  A name as a directory can hold it: not empty, without a separator, not \<open>.\<close> and
  not \<open>..\<close>. A tree is well formed when it holds regular files, symbolic links and
  directories only, none of them a node that an operation of the walk fails on, and
  every name in it is such a name.
\<close>

definition proper_name :: "string \<Rightarrow> bool" where
  "proper_name n = (n \<noteq> [] \<and> sep \<notin> set n \<and> n \<noteq> ''.'' \<and> n \<noteq> ''..'')"

fun wf_tree :: "node \<Rightarrow> bool" where
  "wf_tree (Directory m entries) =
     (\<forall>nt \<in> set entries. proper_name (fst nt) \<and> wf_tree (snd nt))"
| "wf_tree (File m content) = True"
| "wf_tree (Symlink m target) = True"
| "wf_tree n = False"

text \<open>
  The entries of the archive of a tree, as the specification describes them: every
  node under its path relative to the parent of the root, with its type, its mode,
  and the contents of a regular file or the target of a symbolic link. The
  specification describes no entry for a node of another kind.
\<close>

fun tree_entries :: "string \<Rightarrow> node \<Rightarrow> entry list" where
  "tree_entries rel (Directory m entries) =
     (\<lparr>Name = rel, Typeflag = TypeDir, Mode = m, Linkname = []\<rparr>, []) #
     concat (map (\<lambda>(name, n). tree_entries (rel @ sep # name) n) entries)"
| "tree_entries rel (File m content) =
     [(\<lparr>Name = rel, Typeflag = TypeReg, Mode = m, Linkname = []\<rparr>, content)]"
| "tree_entries rel (Symlink m target) =
     [(\<lparr>Name = rel, Typeflag = TypeSymlink, Mode = m, Linkname = target\<rparr>, [])]"
| "tree_entries rel n = []"

text \<open>
  The calls that recreate a tree under a destination, as the specification describes
  extraction: a directory is created with its mode; for a regular file the parent
  is created, the file is opened with its mode, its contents are written and it is
  closed; for a symbolic link the parent is created, what is at the path is removed,
  and the link to the stored target is made.
\<close>

fun recreate :: "string \<Rightarrow> string \<Rightarrow> node \<Rightarrow> fs_call list" where
  "recreate destDir rel (Directory m entries) =
     MkdirAll (Join2 destDir rel) m #
     concat (map (\<lambda>(name, n). recreate destDir (rel @ sep # name) n) entries)"
| "recreate destDir rel (File m content) =
     [MkdirAll (Dir (Join2 destDir rel)) perm_0755, OpenFile (Join2 destDir rel) m,
      Copy (Join2 destDir rel) content, Close (Join2 destDir rel)]"
| "recreate destDir rel (Symlink m target) =
     [MkdirAll (Dir (Join2 destDir rel)) perm_0755, Remove (Join2 destDir rel),
      MkSymlink target (Join2 destDir rel)]"
| "recreate destDir rel n = []"

text \<open>
  \<open>ExtractArchive\<close> discards the error of two calls: of \<open>os.Remove\<close> before it makes
  a symbolic link, and of \<open>Close\<close> on the file it has written. The operating system
  lets a run of calls through, after the calls made so far, when every call of the
  run whose error the code reads succeeds at the moment it is made.
\<close>

fun error_discarded :: "fs_call \<Rightarrow> bool" where
  "error_discarded (Remove p) = True"
| "error_discarded (Close p) = True"
| "error_discarded c = False"

fun run_ok :: "os \<Rightarrow> fs_call list \<Rightarrow> fs_call list \<Rightarrow> bool" where
  "run_ok sys hist [] = True"
| "run_ok sys hist (c # cs) =
     ((error_discarded c \<or> sys hist c = None) \<and> run_ok sys (hist @ [c]) cs)"

text \<open>
  The elements \<open>Clean\<close> leaves: \<open>..\<close> elements, none of them in a rooted path,
  followed by names.
\<close>

definition cleanlist :: "bool \<Rightarrow> string list \<Rightarrow> bool" where
  "cleanlist r xs =
     (\<exists>k ps. xs = replicate k ''..'' @ ps \<and> (\<forall>p \<in> set ps. proper_name p) \<and> (r \<longrightarrow> k = 0))"

text \<open>
  A directory with a file, a symbolic link and a subdirectory.
\<close>

definition docs_tree :: node where
  "docs_tree =
     Directory 493
       [(''a.txt'', File 420 [104, 105]),
        (''link'', Symlink 511 ''a.txt''),
        (''sub'', Directory 493 [(''b.txt'', File 420 [119])])]"

text \<open>
  The elements of a cleaned path. A path is lexically inside a destination when both
  are rooted or both are not, its elements begin with the elements of the
  destination, and none of the elements after them is \<open>..\<close>. A call of the
  extraction stays inside the destination when the path it creates, writes or removes
  is inside it; \<open>MkdirAll\<close> may also name the parent of the destination, which it
  does for an entry that is the destination itself.
\<close>

definition path_elems :: "string \<Rightarrow> string list" where
  "path_elems p = clean_elems (rooted p) [] (split_sep p)"

definition lexically_inside :: "string \<Rightarrow> string \<Rightarrow> bool" where
  "lexically_inside destDir p =
     (let ds = path_elems destDir; xs = path_elems p
      in rooted p = rooted destDir \<and> take (length ds) xs = ds \<and>
         ''..'' \<notin> set (drop (length ds) xs))"

fun stays_inside :: "string \<Rightarrow> fs_call \<Rightarrow> bool" where
  "stays_inside destDir (MkdirAll p m) =
     (lexically_inside destDir p \<or> p = Dir (Clean destDir))"
| "stays_inside destDir (OpenFile p m) = lexically_inside destDir p"
| "stays_inside destDir (Copy p b) = lexically_inside destDir p"
| "stays_inside destDir (Close p) = lexically_inside destDir p"
| "stays_inside destDir (Remove p) = lexically_inside destDir p"
| "stays_inside destDir (MkSymlink target p) = lexically_inside destDir p"
| "stays_inside destDir c = False"

text \<open>
  Where the operating system finds a path after a run of calls: it goes through the
  elements of the path and, at a symbolic link made in the run, goes on from the
  target of the link, an absolute target from the root and a relative one from the
  directory of the link. The link made last at a path counts. The target is taken as
  it stands, which is where the operating system goes when the target holds no link
  made in the run.
\<close>

fun made_links :: "fs_call list \<Rightarrow> (string \<times> string) list" where
  "made_links [] = []"
| "made_links (MkSymlink target p # cs) = (p, target) # made_links cs"
| "made_links (c # cs) = made_links cs"

fun follow :: "(string \<times> string) list \<Rightarrow> string \<Rightarrow> string list \<Rightarrow> string" where
  "follow links cur [] = cur"
| "follow links cur (e # es) =
     (case map_of links (Join2 cur e) of
        None \<Rightarrow> follow links (Join2 cur e) es
      | Some target \<Rightarrow>
          follow links (if IsAbs target then Clean target else Join2 cur target) es)"

definition resolved :: "fs_call list \<Rightarrow> string \<Rightarrow> string" where
  "resolved hist p =
     follow (made_links (rev hist)) (if rooted p then [sep] else ''.'') (path_elems p)"

text \<open>
  An archive with a symbolic link to \<open>/etc\<close>, a file under the name of the link, and
  an entry that escapes.
\<close>

definition link_entries :: "entry list" where
  "link_entries =
     [(\<lparr>Name = ''lnk'', Typeflag = TypeSymlink, Mode = 511, Linkname = ''/etc''\<rparr>, []),
      (\<lparr>Name = ''lnk/passwd'', Typeflag = TypeReg, Mode = 420, Linkname = []\<rparr>, [9]),
      bad_entry ''../x'']"

section \<open>Verified properties\<close>

subsection \<open>Bytes and big-endian numbers\<close>

lemma byte_roundtrip: "word_of_nat (of_char (char_of (unat (w::byte)))) = w"
proof -
  have "unat w < 256" using unsigned_less [of w, where 'a=nat] by simp
  then show ?thesis by simp
qed

lemma string_of_bytes_inv: "string_of_bytes (bytes_of_string s) = s"
  by (simp add: string_of_bytes_def bytes_of_string_def unat_of_nat map_idI)

lemma bytes_of_string_inv: "bytes_of_string (string_of_bytes b) = b"
  by (simp add: string_of_bytes_def bytes_of_string_def o_def byte_roundtrip map_idI del: of_char_of)

lemma string_of_bytes_eq_iff: "string_of_bytes b = s \<longleftrightarrow> b = bytes_of_string s"
  using string_of_bytes_inv bytes_of_string_inv by metis

lemma length_bytes_of_string [simp]: "length (bytes_of_string s) = length s"
  by (simp add: bytes_of_string_def)

lemma be_nat_snoc: "be_nat (bs @ [b]) = 256 * be_nat bs + unat b"
  by (simp add: be_nat_def)

lemma be_word_snoc: "be_word (bs @ [b]) = push_bit 8 (be_word bs) OR ucast b"
  by (simp add: be_word_def)

lemma be_nat_bound: "be_nat bs < 256 ^ length bs"
proof (induction bs rule: rev_induct)
  case Nil
  then show ?case by (simp add: be_nat_def)
next
  case (snoc b bs)
  have "unat b < 256" using unsigned_less [of b, where 'a=nat] by simp
  with snoc show ?case by (simp add: be_nat_snoc)
qed

lemma shift_or_add: "push_bit 8 (a::64 word) OR ucast (b::byte) = push_bit 8 a + ucast b"
proof -
  have "push_bit 8 a AND (ucast b :: 64 word) = 0"
  proof (rule bit_word_eqI)
    fix n assume "n < LENGTH(64)"
    have "bit b n \<Longrightarrow> n < 8" using bit_imp_le_length [of b n] by simp
    then show "bit (push_bit 8 a AND (ucast b :: 64 word)) n = bit (0 :: 64 word) n"
      by (auto simp: bit_simps)
  qed
  then show ?thesis by (rule disjunctive_add_eq_or [symmetric])
qed

lemma unat_be_word: "length bs \<le> 8 \<Longrightarrow> unat (be_word bs) = be_nat bs"
proof (induction bs rule: rev_induct)
  case Nil
  then show ?case by (simp add: be_nat_def be_word_def)
next
  case (snoc b bs)
  then have ih: "unat (be_word bs) = be_nat bs" and len: "length bs \<le> 7" by simp_all
  have b: "unat b < 256" using unsigned_less [of b, where 'a=nat] by simp
  have "be_nat bs < 256 ^ length bs" by (rule be_nat_bound)
  also have "\<dots> \<le> (256::nat) ^ 7" using len by (intro power_increasing) simp_all
  finally have small: "be_nat bs < 256 ^ 7" .
  have ub: "unat (ucast b :: 64 word) = unat b"
    by (simp add: unsigned_ucast_eq take_bit_nat_eq_self_iff) (use b in simp)
  have "unat (be_word (bs @ [b])) = unat (be_word bs * 256 + ucast b)"
    by (simp only: be_word_snoc shift_or_add) (simp add: push_bit_eq_mult)
  also have "\<dots> = (be_nat bs * 256 + unat b) mod 2 ^ 64"
    by (simp only: unat_word_ariths ih ub) (simp add: mod_simps)
  also have "\<dots> = be_nat bs * 256 + unat b"
    using small b by (intro mod_less) simp
  finally show ?case by (simp add: be_nat_snoc)
qed

lemma be_word8:
  "be_word [b0, b1, b2, b3, b4, b5, b6, b7] =
     ucast b7 OR push_bit 8 (ucast b6) OR push_bit 16 (ucast b5) OR
     push_bit 24 (ucast b4) OR push_bit 32 (ucast b3) OR push_bit 40 (ucast b2) OR
     push_bit 48 (ucast b1) OR push_bit 56 (ucast b0)"
  by (simp add: be_word_def push_bit_or ac_simps)

lemma Uint64_be_word8:
  "Uint64 (b0 # b1 # b2 # b3 # b4 # b5 # b6 # b7 # r) =
     Some (be_word [b0, b1, b2, b3, b4, b5, b6, b7])"
  by (simp only: be_word8 Uint64.simps)

lemma list8: "length (bs::'a list) = 8 \<Longrightarrow> \<exists>b0 b1 b2 b3 b4 b5 b6 b7. bs = [b0, b1, b2, b3, b4, b5, b6, b7]"
  by (auto simp: numeral_eq_Suc length_Suc_conv)

lemma Uint64_be_word: "length bs = 8 \<Longrightarrow> Uint64 bs = Some (be_word bs)"
  using list8 [of bs] Uint64_be_word8 by metis

lemma be_step:
  "push_bit 8 (drop_bit (k + 8) v) OR ucast (ucast (drop_bit k v) :: byte) = drop_bit k (v::64 word)"
proof (rule bit_word_eqI)
  fix n assume "n < LENGTH(64)"
  then show "bit (push_bit 8 (drop_bit (k + 8) v) OR ucast (ucast (drop_bit k v) :: byte)) n = bit (drop_bit k v) n"
    by (cases "n < 8") (auto simp: bit_simps add.commute)
qed

lemma be_word_PutUint64: "be_word (PutUint64 v) = v"
proof -
  have s: "\<And>k. push_bit 8 (drop_bit (k + 8) v) OR ucast (ucast (drop_bit k v) :: byte) = drop_bit k v"
    by (rule be_step)
  have "be_word (PutUint64 v) = drop_bit 0 v"
    unfolding be_word_def PutUint64_def foldl.simps
    using s [of 0] s [of 8] s [of 16] s [of 24] s [of 32] s [of 40] s [of 48] s [of 56]
    by (simp add: drop_bit_eq_zero_iff_not_bit_last)
  then show ?thesis by simp
qed

lemma length_PutUint64 [simp]: "length (PutUint64 v) = 8"
  by (simp add: PutUint64_def)

lemma Uint64_PutUint64: "Uint64 (PutUint64 v) = Some v"
  by (simp add: Uint64_be_word be_word_PutUint64)

lemma word_of_nat_eq_iff:
  "n < 2 ^ 64 \<Longrightarrow> (word_of_nat n :: 64 word) = w \<longleftrightarrow> n = unat w"
  by (auto simp: unat_of_nat)

lemma length_slice: "j \<le> length xs \<Longrightarrow> length (slice xs i j) = j - i"
  by (simp add: slice_def)

lemma decode_cases:
  assumes "length data - 59 < 2 ^ 64"
  shows "decode data = (if malformed data then
       (if length data < 59 then Inl (New ''invalid file: too small to be a valid encrypted file'')
        else if take 7 data \<noteq> bytes_of_string ''CLOAK01'' then Inl (New ''invalid file: not a valid .cloak file'')
        else Inl (New ''invalid file: size mismatch, file may be corrupted''))
     else Inr (slice data 7 39, slice data 39 51, drop 59 data))"
proof (cases "length data < 59")
  case True
  then show ?thesis by (simp add: decode_def malformed_def headerSize_def MagicBytes_def SaltSize_def NonceSize_def)
next
  case False
  then have len: "59 \<le> length data" by simp
  have l8: "length (slice data 51 59) = 8" using len by (simp add: slice_def)
  have u: "Uint64 (slice data 51 59) = Some (be_word (slice data 51 59))"
    using l8 by (rule Uint64_be_word)
  have n: "unat (be_word (slice data 51 59)) = be_nat (slice data 51 59)"
    using l8 by (simp add: unat_be_word)
  have lt: "length (drop 59 data) < 2 ^ 64" using assms by simp
  have w: "((word_of_nat (length (drop 59 data)) :: 64 word) \<noteq> be_word (slice data 51 59)) =
      (be_nat (slice data 51 59) \<noteq> length data - 59)"
    using word_of_nat_eq_iff [OF lt, of "be_word (slice data 51 59)"] n by auto
  have m: "(string_of_bytes (slice data 0 7) \<noteq> MagicBytes) = (take 7 data \<noteq> bytes_of_string ''CLOAK01'')"
    by (simp add: string_of_bytes_eq_iff slice_def MagicBytes_def)
  have hs: "headerSize = 59" "length MagicBytes = 7" "SaltSize = 32" "NonceSize = 12"
    by (simp_all add: headerSize_def MagicBytes_def SaltSize_def NonceSize_def)
  have nm: "malformed data = (take 7 data \<noteq> bytes_of_string ''CLOAK01'' \<or>
      be_nat (slice data 51 59) \<noteq> length data - 59)"
    using len by (simp add: malformed_def)
  show ?thesis using len
    by (simp add: decode_def hs Let_def u w m nm del: length_drop)
qed

subsection \<open>The container codec\<close>

text \<open>
  C4. For a container of a length a Go slice can have, the header parsing of
  \<open>Decrypt\<close> fails exactly when the container is malformed (shorter than the
  59 bytes of the header, or not starting with the magic, or declaring in its bytes
  51 to 58 a big-endian length other than the number of bytes after the header), and
  then with one of the three format errors; otherwise it yields the salt (bytes 7 to
  38), the nonce (bytes 39 to 50) and the ciphertext (the bytes from 59 on).
\<close>

theorem decode_fails_iff_malformed:
  assumes "length data < 2 ^ 63"
  shows "(case decode data of
            Inl e \<Rightarrow> FormatError e \<and> malformed data
          | Inr r \<Rightarrow> \<not> malformed data \<and>
                     r = (slice data 7 39, slice data 39 51, drop 59 data))"
proof -
  have "length data - 59 < 2 ^ 64" using assms by simp
  then show ?thesis by (simp add: decode_cases FormatError_def)
qed

theorem decode_fails_iff_malformed_witness:
  "decode (bytes_of_string ''CLOAK01'' @ replicate 32 1 @ replicate 12 2 @ [0, 0, 0, 0, 0, 0, 0, 3, 4, 5, 6])
     = Inr (replicate 32 1, replicate 12 2, [4, 5, 6]) \<and>
   decode (bytes_of_string ''CLOAK01'' @ replicate 32 1 @ replicate 12 2 @ [0, 0, 0, 0, 0, 0, 0, 4, 4, 5, 6])
     = Inl (New ''invalid file: size mismatch, file may be corrupted'') \<and>
   malformed (bytes_of_string ''CLOAK01'' @ replicate 32 1 @ replicate 12 2 @ [0, 0, 0, 0, 0, 0, 0, 4, 4, 5, 6])"
proof -
  let ?good = "bytes_of_string ''CLOAK01'' @ replicate 32 1 @ replicate 12 2 @ [0, 0, 0, 0, 0, 0, 0, 3, 4, 5, 6]"
  let ?bad = "bytes_of_string ''CLOAK01'' @ replicate 32 1 @ replicate 12 2 @ [0, 0, 0, 0, 0, 0, 0, 4, 4, 5, 6]"
  have g: "length ?good < 2 ^ 63" and b: "length ?bad < 2 ^ 63" by simp_all
  have dg: "decode ?good = Inr (replicate 32 1, replicate 12 2, [4, 5, 6])"
    by code_simp
  have db: "decode ?bad = Inl (New ''invalid file: size mismatch, file may be corrupted'')"
    by code_simp
  show ?thesis
    using decode_fails_iff_malformed [OF g] decode_fails_iff_malformed [OF b]
    by (simp add: dg db)
qed

lemma encode_eq:
  "encode salt nonce ciphertext =
     bytes_of_string ''CLOAK01'' @ salt @ nonce @
     PutUint64 (word_of_nat (length ciphertext)) @ ciphertext"
  by (simp add: encode_def container_writes_def MagicBytes_def)

lemma be_nat_PutUint64: "n < 2 ^ 64 \<Longrightarrow> be_nat (PutUint64 (word_of_nat n)) = n"
proof -
  assume n: "n < 2 ^ 64"
  have "be_nat (PutUint64 (word_of_nat n)) = unat (be_word (PutUint64 (word_of_nat n)))"
    by (simp add: unat_be_word)
  also have "\<dots> = n" using n by (simp add: be_word_PutUint64 unat_of_nat)
  finally show ?thesis .
qed

lemma encode_facts:
  assumes "length salt = 32" and "length nonce = 12" and "length ciphertext < 2 ^ 63"
  shows "be_nat (PutUint64 (word_of_nat (length ciphertext))) = length ciphertext"
    and "length (encode salt nonce ciphertext) = 59 + length ciphertext"
    and "decode (encode salt nonce ciphertext) = Inr (salt, nonce, ciphertext)"
proof -
  let ?sz = "PutUint64 (word_of_nat (length ciphertext))"
  let ?e = "encode salt nonce ciphertext"
  have lt: "length ciphertext < 2 ^ 64" using assms(3) by simp
  show bn: "be_nat ?sz = length ciphertext" using lt by (rule be_nat_PutUint64)
  show len: "length ?e = 59 + length ciphertext"
    using assms by (simp add: encode_eq)
  have t7: "take 7 ?e = bytes_of_string ''CLOAK01''" by (simp add: encode_eq)
  have s1: "slice ?e 7 39 = salt" using assms by (simp add: encode_eq slice_def)
  have s2: "slice ?e 39 51 = nonce" using assms by (simp add: encode_eq slice_def)
  have s3: "slice ?e 51 59 = ?sz" using assms by (simp add: encode_eq slice_def)
  have s4: "drop 59 ?e = ciphertext" using assms by (simp add: encode_eq)
  have nm: "\<not> malformed ?e" by (simp add: malformed_def len t7 s3 bn)
  have "length ?e - 59 < 2 ^ 64" using lt len by simp
  then show "decode ?e = Inr (salt, nonce, ciphertext)"
    by (simp add: decode_cases nm s1 s2 s4)
qed

lemma decode_encode:
  "length salt = 32 \<Longrightarrow> length nonce = 12 \<Longrightarrow> length ciphertext < 2 ^ 63 \<Longrightarrow>
   decode (encode salt nonce ciphertext) = Inr (salt, nonce, ciphertext)"
  by (rule encode_facts)

text \<open>
  C5. For a 32-byte salt, a 12-byte nonce and a ciphertext of a length a Go slice can
  have, the bytes \<open>Encrypt\<close> writes are the magic, the salt, the nonce, eight bytes
  holding the length of the ciphertext as a big-endian number, and the ciphertext, in
  this order; the container has 59 bytes more than the ciphertext, and the header
  parsing of \<open>Decrypt\<close> gives back the salt, the nonce and the ciphertext.
\<close>

theorem encode_layout_roundtrip:
  assumes "length salt = 32" and "length nonce = 12" and "length ciphertext < 2 ^ 63"
  shows "encode salt nonce ciphertext =
           bytes_of_string ''CLOAK01'' @ salt @ nonce @
           PutUint64 (word_of_nat (length ciphertext)) @ ciphertext \<and>
         length (PutUint64 (word_of_nat (length ciphertext))) = 8 \<and>
         be_nat (PutUint64 (word_of_nat (length ciphertext))) = length ciphertext \<and>
         length (encode salt nonce ciphertext) = 59 + length ciphertext \<and>
         decode (encode salt nonce ciphertext) = Inr (salt, nonce, ciphertext)"
  using encode_facts [OF assms] encode_eq [of salt nonce ciphertext] by simp

theorem encode_layout_roundtrip_witness:
  "encode (replicate 32 1) (replicate 12 2) [4, 5, 6] =
     bytes_of_string ''CLOAK01'' @ replicate 32 1 @ replicate 12 2 @
     [0, 0, 0, 0, 0, 0, 0, 3] @ [4, 5, 6] \<and>
   length (encode (replicate 32 1) (replicate 12 2) [4, 5, 6]) = 62 \<and>
   decode (encode (replicate 32 1) (replicate 12 2) [4, 5, 6]) =
     Inr (replicate 32 1, replicate 12 2, [4, 5, 6])"
proof -
  have h: "length (replicate 32 (1::byte)) = 32" "length (replicate 12 (2::byte)) = 12"
    "length [4, 5, 6 :: byte] < 2 ^ 63" by simp_all
  have p: "PutUint64 (word_of_nat (length [4, 5, 6 :: byte])) = [0, 0, 0, 0, 0, 0, 0, 3]"
    by (simp add: PutUint64_def)
  have l: "59 + length [4, 5, 6 :: byte] = 62" by simp
  note r = encode_layout_roundtrip [OF h, unfolded p l]
  from r show ?thesis by (intro conjI) (elim conjE, assumption)+
qed

subsection \<open>The secret buffer, key derivation and the cipher\<close>

lemma zero_loop_eq: "n \<le> length d \<Longrightarrow> zero_loop n d = replicate n 0 @ drop n d"
proof (induction n)
  case 0
  then show ?case by (simp add: zero_loop_def)
next
  case (Suc n)
  then have ih: "zero_loop n d = replicate n 0 @ drop n d" and n: "n < length d" by simp_all
  have "zero_loop (Suc n) d = (zero_loop n d)[n := 0]"
    by (simp add: zero_loop_def)
  also have "\<dots> = replicate n 0 @ (drop n d)[0 := 0]"
    by (simp add: ih list_update_append)
  also have "(drop n d)[0 := 0] = 0 # drop (Suc n) d"
    using n by (simp add: Cons_nth_drop_Suc [symmetric])
  finally show ?case by (simp add: replicate_app_Cons_same)
qed

lemma length_zero_loop [simp]: "length (zero_loop n d) = length d"
proof -
  have "\<And>b. length (fold (\<lambda>i b. b[i := 0::byte]) xs b) = length b" for xs :: "nat list"
    by (induction xs) simp_all
  then show ?thesis by (simp add: zero_loop_def)
qed


text \<open>
  C8. For every \<open>SecureBytes\<close> and memory: \<open>Wipe\<close> leaves \<open>Data\<close> nil; when
  \<open>Data\<close> held a slice, every byte of the slice is zero afterwards, the rest of its
  array and every other array are as before; a second \<open>Wipe\<close> changes nothing, so
  the state after two calls is the state after one.
\<close>
theorem Wipe_zeroes_detaches_idempotent:
  "Wipe (Wipe (s, m)) = Wipe (s, m) \<and>
   Data (fst (Wipe (s, m))) = None \<and>
   next_free (snd (Wipe (s, m))) = next_free m \<and>
   (case Data s of
      None \<Rightarrow> Wipe (s, m) = (s, m)
    | Some sl \<Rightarrow>
        (\<forall>a. a \<noteq> arr sl \<longrightarrow> heap (snd (Wipe (s, m))) a = heap m a) \<and>
        length (heap (snd (Wipe (s, m))) (arr sl)) = length (heap m (arr sl)) \<and>
        (len sl \<le> length (heap m (arr sl)) \<longrightarrow>
           read_slice (snd (Wipe (s, m))) sl = replicate (len sl) 0 \<and>
           drop (len sl) (heap (snd (Wipe (s, m))) (arr sl)) = drop (len sl) (heap m (arr sl))))"
  by (cases "Data s") (simp_all add: Wipe_def zero_slice_def read_slice_def zero_loop_eq)

theorem Wipe_witness:
  "Wipe (\<lparr>Data = Some \<lparr>arr = 0, len = 3\<rparr>\<rparr>, \<lparr>heap = (\<lambda>a. [])(0 := [7, 8, 9]), next_free = 1\<rparr>) =
     (\<lparr>Data = None\<rparr>, \<lparr>heap = (\<lambda>a. [])(0 := replicate 3 0), next_free = 1\<rparr>) \<and>
   Wipe (\<lparr>Data = None\<rparr>, \<lparr>heap = (\<lambda>a. [])(0 := replicate 3 0), next_free = 1\<rparr>) =
     (\<lparr>Data = None\<rparr>, \<lparr>heap = (\<lambda>a. [])(0 := replicate 3 0), next_free = 1\<rparr>)"
  using Wipe_zeroes_detaches_idempotent
    [of "\<lparr>Data = Some \<lparr>arr = 0, len = 3\<rparr>\<rparr>" "\<lparr>heap = (\<lambda>a. [])(0 := [7, 8, 9]), next_free = 1\<rparr>"]
  by (simp add: Wipe_def zero_slice_def zero_loop_eq)

lemma DeriveKey_eq:
  "DeriveKey L password salt m =
     (let key = argon2id L password salt 3 (64 * 1024) 4 32; (sl, m') = alloc key m
      in (Inr \<lparr>Data = Some sl\<rparr>, m'))"
  by (simp add: DeriveKey_def argon2_IDKey_def argonTime_def argonMemory_def argonThreads_def KeySize_def)

text \<open>
  C6. For every password, salt and memory, \<open>DeriveKey\<close> returns (it never panics on
  its fixed parameters) the hash of the password and the salt computed with 3
  iterations, 64 * 1024 KiB (64 MiB) of memory, 4 threads and key length 32; the key
  depends on the password and the salt only, so two calls give the same bytes; and
  it is 32 bytes long when the library returns a key of the length asked for.
\<close>
theorem DeriveKey_deterministic_32:
  "derived_key L password salt m = Some (argon2id L password salt 3 (64 * 1024) 4 32) \<and>
   derived_key L password salt m = derived_key L password salt m' \<and>
   (\<exists>s m1. DeriveKey L password salt m = (Inr s, m1)) \<and>
   (64 * 1024) * 1024 = (64 :: nat) * 2 ^ 20 \<and>
   (argon2_length L \<longrightarrow> (\<exists>k. derived_key L password salt m = Some k \<and> length k = 32))"
  by (simp add: derived_key_def DeriveKey_eq alloc_def read_slice_def argon2_length_def Let_def)

lemma toy_argon2_length: "argon2_length toy_lib"
  by (simp add: argon2_length_def toy_lib_def)

lemma toy_gcm_correct: "gcm_correct toy_lib"
  by (simp add: gcm_correct_def toy_lib_def)

theorem DeriveKey_witness:
  "argon2_length toy_lib \<and>
   derived_key toy_lib [1, 2] (replicate 32 3) mem0 = Some (replicate 32 34)"
  using DeriveKey_deterministic_32 [of toy_lib "[1, 2]" "replicate 32 3" mem0] toy_argon2_length
  by (simp add: toy_lib_def)

text \<open>
  C2. For every ciphertext, 32-byte key (as \<open>DeriveKey\<close> derives it) and 12-byte
  nonce: whenever the authenticated decryption of the library fails, whatever the
  cause, \<open>DecryptData\<close> returns the one error "decryption failed: invalid password
  or corrupted file" and no plaintext; two failures, under different keys or on
  different ciphertexts, return the same value; and a plaintext is returned only
  when the library authenticated the ciphertext, and then it is the whole plaintext.
\<close>

theorem DecryptData_fails_closed:
  assumes "length key = 32" and "length nonce = 12"
  shows "(gcm_open L key nonce ciphertext = None \<longrightarrow>
            DecryptData L ciphertext key nonce =
              Inl (New ''decryption failed: invalid password or corrupted file'')) \<and>
         (\<forall>key' ciphertext'.
            length key' = 32 \<and> gcm_open L key nonce ciphertext = None \<and>
            gcm_open L key' nonce ciphertext' = None \<longrightarrow>
            DecryptData L ciphertext' key' nonce = DecryptData L ciphertext key nonce) \<and>
         (\<forall>plaintext. DecryptData L ciphertext key nonce = Inr plaintext \<longleftrightarrow>
            gcm_open L key nonce ciphertext = Some plaintext)"
  using assms
  by (auto simp: DecryptData_def aes_NewCipher_def cipher_NewGCM_def gcm_Open_def
      split: option.splits)

theorem DecryptData_fails_closed_witness:
  "DecryptData toy_lib (replicate 32 1 @ replicate 12 2 @ [5, 6]) (replicate 32 1) (replicate 12 2) =
     Inr [5, 6] \<and>
   DecryptData toy_lib (replicate 32 1 @ replicate 12 3 @ [5, 6]) (replicate 32 1) (replicate 12 2) =
     Inl (New ''decryption failed: invalid password or corrupted file'') \<and>
   DecryptData toy_lib (replicate 32 1 @ replicate 12 2 @ [5, 6]) (replicate 32 9) (replicate 12 2) =
     Inl (New ''decryption failed: invalid password or corrupted file'')"
proof -
  have k: "length (replicate 32 (1::byte)) = 32" "length (replicate 32 (9::byte)) = 32"
    and n: "length (replicate 12 (2::byte)) = 12" by simp_all
  note a = DecryptData_fails_closed [OF k(1) n, of toy_lib "replicate 32 1 @ replicate 12 2 @ [5, 6]"]
  note b = DecryptData_fails_closed [OF k(1) n, of toy_lib "replicate 32 1 @ replicate 12 3 @ [5, 6]"]
  note c = DecryptData_fails_closed [OF k(2) n, of toy_lib "replicate 32 1 @ replicate 12 2 @ [5, 6]"]
  have o1: "gcm_open toy_lib (replicate 32 1) (replicate 12 2) (replicate 32 1 @ replicate 12 2 @ [5, 6]) = Some [5, 6]"
    by (simp add: toy_lib_def)
  have o2: "gcm_open toy_lib (replicate 32 1) (replicate 12 2) (replicate 32 1 @ replicate 12 3 @ [5, 6]) = None"
    by (simp add: toy_lib_def)
  have o3: "gcm_open toy_lib (replicate 32 9) (replicate 12 2) (replicate 32 1 @ replicate 12 2 @ [5, 6]) = None"
    by (simp add: toy_lib_def)
  from a o1 have "DecryptData toy_lib (replicate 32 1 @ replicate 12 2 @ [5, 6]) (replicate 32 1) (replicate 12 2) = Inr [5, 6]"
    by blast
  moreover from b o2 have "DecryptData toy_lib (replicate 32 1 @ replicate 12 3 @ [5, 6]) (replicate 32 1) (replicate 12 2) =
     Inl (New ''decryption failed: invalid password or corrupted file'')"
    by blast
  moreover from c o3 have "DecryptData toy_lib (replicate 32 1 @ replicate 12 2 @ [5, 6]) (replicate 32 9) (replicate 12 2) =
     Inl (New ''decryption failed: invalid password or corrupted file'')"
    by blast
  ultimately show ?thesis by blast
qed

subsection \<open>Extraction and the path check\<close>

lemma extract_loop_append:
  "extract_loop sys d (pre @ rest) ending hist =
     (case extract_loop sys d pre None hist of
        (Some e, h1) \<Rightarrow> (Some e, h1)
      | (None, h1) \<Rightarrow> extract_loop sys d rest ending h1)"
proof (induction pre arbitrary: hist)
  case Nil
  then show ?case by simp
next
  case (Cons en pre)
  obtain h body where en: "en = (h, body)" by (cases en)
  show ?case
    by (simp add: en Cons.IH Let_def split: prod.splits option.splits)
qed

lemma extract_loop_reject:
  "HasPrefix (Clean (Name h)) ''..'' \<or> IsAbs (Clean (Name h)) \<Longrightarrow>
   extract_loop sys d ((h, body) # post) ending hist =
     (Some (Errorf ''invalid path in archive'' (Name h)), hist)"
  by (simp add: Let_def)

lemma extract_reject_at:
  assumes "tgz_decode A data = Inr (pre @ (h, body) # post, ending)"
    and "HasPrefix (Clean (Name h)) ''..'' \<or> IsAbs (Clean (Name h))"
  shows "ExtractArchive A sys data destDir hist =
           (case extract_loop sys destDir pre None hist of
              (Some e, h1) \<Rightarrow> (Some e, h1)
            | (None, h1) \<Rightarrow> (Some (Errorf ''invalid path in archive'' (Name h)), h1))"
  using assms(2)
  by (simp add: ExtractArchive_def assms(1) extract_loop_append extract_loop_reject
      del: extract_loop.simps split: prod.splits option.splits)

lemma HasPrefix_iff: "HasPrefix s p \<longleftrightarrow> (\<exists>r. s = p @ r)"
proof
  assume "HasPrefix s p"
  then have "s = p @ drop (length p) s"
    by (metis HasPrefix_def append_take_drop_id)
  then show "\<exists>r. s = p @ r" ..
next
  assume "\<exists>r. s = p @ r"
  then show "HasPrefix s p" by (auto simp: HasPrefix_def)
qed

lemma escapes_HasPrefix: "escapes c \<Longrightarrow> HasPrefix c ''..''"
  by (auto simp: escapes_def HasPrefix_iff)


lemma dotdot_rel:
  "Rel (Dir ''/home/u/..config'') ''/home/u/..config'' = Inr ''..config''"
  by code_simp

lemma dotdot_first_entry:
  assumes "archive_entries A ''/home/u/..config'' dotdot_tree = Inr es"
  shows "\<exists>h body rest. es = (h, body) # rest \<and> Name h = ''..config''"
  using assms
  by (auto simp: archive_entries_def dotdot_tree_def archive_node_def dotdot_rel Let_def
      split: sum.splits option.splits)

lemma dotdot_name:
  "Clean ''..config'' = ''..config'' \<and> \<not> escapes ''..config'' \<and> \<not> IsAbs ''..config'' \<and>
   HasPrefix ''..config'' ''..''"
  by code_simp

text \<open>
  C10. \<open>ExtractArchive\<close> refuses, with "invalid path in archive", every entry whose
  cleaned name begins with the two characters \<open>..\<close>, also when its first element is
  an ordinary name: \<open>..config\<close> is clean, does not escape, is not absolute, and is
  refused. So the directory named \<open>..config\<close>, whose archive has \<open>..config\<close> as
  the name of its first entry, cannot be extracted from its own archive: whenever the
  tar and gzip readers give back the entries written, extraction fails on that entry
  and makes no call.
\<close>

theorem dotdot_prefixed_names_rejected:
  assumes "tgz_decode A data = Inr (pre @ (h, body) # post, ending)"
    and "HasPrefix (Clean (Name h)) ''..''"
    and "fst (extract_loop sys destDir pre None hist) = None"
  shows "ExtractArchive A sys data destDir hist =
           (Some (Errorf ''invalid path in archive'' (Name h)),
            snd (extract_loop sys destDir pre None hist)) \<and>
         Clean ''..config'' = ''..config'' \<and> \<not> escapes ''..config'' \<and>
         \<not> IsAbs ''..config'' \<and> HasPrefix ''..config'' ''..'' \<and>
         (\<forall>es. archive_entries A ''/home/u/..config'' dotdot_tree = Inr es \<and>
               tgz_decode A (tgz_encode A es) = Inr (es, None) \<longrightarrow>
               ExtractArchive A sys (tgz_encode A es) destDir hist =
                 (Some (Errorf ''invalid path in archive'' ''..config''), hist))"
proof -
  have a: "ExtractArchive A sys data destDir hist =
           (Some (Errorf ''invalid path in archive'' (Name h)),
            snd (extract_loop sys destDir pre None hist))"
    using extract_reject_at [OF assms(1), of sys destDir hist] assms(2,3)
    by (auto split: prod.splits option.splits)
  have b: "ExtractArchive A sys (tgz_encode A es) destDir hist =
                 (Some (Errorf ''invalid path in archive'' ''..config''), hist)"
    if e: "archive_entries A ''/home/u/..config'' dotdot_tree = Inr es"
      and d: "tgz_decode A (tgz_encode A es) = Inr (es, None)" for es
  proof -
    from dotdot_first_entry [OF e] obtain h0 body0 rest
      where es: "es = [] @ (h0, body0) # rest" and n: "Name h0 = ''..config''" by auto
    have p: "HasPrefix (Clean (Name h0)) ''..'' \<or> IsAbs (Clean (Name h0))"
      using dotdot_name by (simp add: n)
    from d es have d': "tgz_decode A (tgz_encode A es) = Inr ([] @ (h0, body0) # rest, None)"
      by simp
    from extract_reject_at [OF d' p, of sys destDir hist] show ?thesis
      by (simp add: n)
  qed
  from a b dotdot_name show ?thesis by blast
qed

theorem dotdot_prefixed_names_rejected_witness:
  "ExtractArchive toy_archive all_ok
     (tgz_encode toy_archive [ok_entry, bad_entry ''..config'']) ''/tmp/out'' [] =
     (Some (Errorf ''invalid path in archive'' ''..config''),
      [MkdirAll ''/tmp/out'' 493, OpenFile ''/tmp/out/ok.txt'' 420,
       Copy ''/tmp/out/ok.txt'' [1, 2, 3], Close ''/tmp/out/ok.txt'']) \<and>
   archive_entries toy_archive ''/home/u/..config'' dotdot_tree = Inr dotdot_entries \<and>
   ExtractArchive toy_archive all_ok (tgz_encode toy_archive dotdot_entries) ''/tmp/out'' [] =
     (Some (Errorf ''invalid path in archive'' ''..config''), [])"
proof -
  let ?d1 = "tgz_encode toy_archive [ok_entry, bad_entry ''..config'']"
  have d1: "tgz_decode toy_archive ?d1 =
      Inr ([ok_entry] @ (fst (bad_entry ''..config''), [9]) # [], None)"
    by code_simp
  have e1: "HasPrefix (Clean (Name (fst (bad_entry ''..config'')))) ''..''"
    by code_simp
  have p1: "extract_loop all_ok ''/tmp/out'' [ok_entry] None [] =
      (None, [MkdirAll ''/tmp/out'' 493, OpenFile ''/tmp/out/ok.txt'' 420,
       Copy ''/tmp/out/ok.txt'' [1, 2, 3], Close ''/tmp/out/ok.txt''])"
    by code_simp
  have n1: "Name (fst (bad_entry ''..config'')) = ''..config''"
    by (simp add: bad_entry_def)
  have ae: "archive_entries toy_archive ''/home/u/..config'' dotdot_tree = Inr dotdot_entries"
    by code_simp
  have td: "tgz_decode toy_archive (tgz_encode toy_archive dotdot_entries) =
      Inr (dotdot_entries, None)"
    by code_simp
  have p1': "fst (extract_loop all_ok ''/tmp/out'' [ok_entry] None []) = None"
    by (simp only: p1 fst_conv)
  note t = dotdot_prefixed_names_rejected [OF d1 e1 p1', unfolded p1 n1 snd_conv]
  from t have t1: "ExtractArchive toy_archive all_ok ?d1 ''/tmp/out'' [] =
     (Some (Errorf ''invalid path in archive'' ''..config''),
      [MkdirAll ''/tmp/out'' 493, OpenFile ''/tmp/out/ok.txt'' 420,
       Copy ''/tmp/out/ok.txt'' [1, 2, 3], Close ''/tmp/out/ok.txt''])" by blast
  from t ae td have t2: "ExtractArchive toy_archive all_ok
     (tgz_encode toy_archive dotdot_entries) ''/tmp/out'' [] =
     (Some (Errorf ''invalid path in archive'' ''..config''), [])"
    by blast
  from t1 ae t2 show ?thesis by blast
qed

subsection \<open>Encrypt and Decrypt\<close>

lemma write_all_calls:
  "set (snd (write_all s path bs hist)) \<subseteq> set hist \<union> {c. \<exists>b. c = Write path b}"
proof (induction bs arbitrary: hist)
  case Nil
  then show ?case by simp
next
  case (Cons b bs)
  show ?case
  proof (cases "s hist (Write path b)")
    case None
    then show ?thesis using Cons.IH [of "hist @ [Write path b]"]
      by (auto simp: call_def)
  next
    case (Some e)
    then show ?thesis by (auto simp: call_def)
  qed
qed

lemma calls_defer_Wipe [simp]: "calls (final (defer_Wipe s ex)) = calls (final ex)"
  by (simp add: defer_Wipe_def)

lemma calls_ret [simp]: "calls (final (ret r w a)) = calls w"
  by (simp add: ret_def)

lemma write_all_calls_in:
  "write_all s path bs hist = (r, hist1) \<Longrightarrow> c \<in> set hist1 \<Longrightarrow>
   c \<in> set hist \<or> (\<exists>b. c = Write path b)"
  using write_all_calls [of s path bs hist] by auto

lemma Encrypt_archived_calls:
  "set (calls (final (Encrypt_archived E out password archive w))) \<subseteq>
     set (calls w) \<union> {c. c = Create out \<or> c = Close out \<or> (\<exists>b. c = Write out b)}"
  unfolding Encrypt_archived_def GenerateRandomBytes_def
  by (auto simp: Let_def defer_Close_def call_def split: sum.splits prod.splits option.splits
      dest!: write_all_calls_in)

lemma ReadPasswordSecure_calls:
  "ReadPasswordSecure E prompt w = (r, w1) \<Longrightarrow> calls w1 = calls w"
  by (auto simp: ReadPasswordSecure_def Let_def split: if_splits sum.splits prod.splits)

lemma Encrypt_calls:
  assumes "c \<in> set (calls (final (Encrypt E folderPath w)))" and "c \<notin> set (calls w)"
  shows "\<exists>absPath e. stat E folderPath = Inr True \<and> Abs E folderPath = Inr absPath \<and>
          stat E (output_path absPath) = Inl e \<and>
          (c = Create (output_path absPath) \<or> c = Close (output_path absPath) \<or>
           (\<exists>b. c = Write (output_path absPath) b))"
  using assms unfolding Encrypt_def
  by (auto simp: Let_def split: sum.splits prod.splits if_splits
      dest!: ReadPasswordSecure_calls subsetD [OF Encrypt_archived_calls])

text \<open>
  C9. \<open>Encrypt\<close> returns an error and leaves the world as it found it (no prompt
  printed, no call made to the file system, the memory unchanged) when \<open>os.Stat\<close>
  fails on the path, when the path is not a directory, and when \<open>os.Stat\<close> finds
  something at the output path; the output path is the absolute path of the
  directory, without a trailing separator, followed by \<open>.cloak\<close>; and every call
  \<open>Encrypt\<close> makes to the file system creates, writes or closes the file at the
  output path, after the three checks have passed.
\<close>

theorem Encrypt_validates_before_password:
  "(\<forall>e. stat E folderPath = Inl e \<longrightarrow>
       Encrypt E folderPath w = ret (Some (Wrap ''cannot access folder'' e)) w None) \<and>
   (stat E folderPath = Inr False \<longrightarrow>
       Encrypt E folderPath w = ret (Some (New ''path is not a directory'')) w None) \<and>
   (\<forall>absPath info.
       stat E folderPath = Inr True \<and> Abs E folderPath = Inr absPath \<and>
       stat E (TrimSuffix absPath ''/'' @ ''.cloak'') = Inr info \<longrightarrow>
       Encrypt E folderPath w =
         ret (Some (Errorf ''output file already exists'' (TrimSuffix absPath ''/'' @ ''.cloak'')))
           w None) \<and>
   (\<forall>c. c \<in> set (calls (final (Encrypt E folderPath w))) \<and> c \<notin> set (calls w) \<longrightarrow>
       (\<exists>absPath e. stat E folderPath = Inr True \<and> Abs E folderPath = Inr absPath \<and>
          stat E (TrimSuffix absPath ''/'' @ ''.cloak'') = Inl e \<and>
          (c = Create (TrimSuffix absPath ''/'' @ ''.cloak'') \<or>
           c = Close (TrimSuffix absPath ''/'' @ ''.cloak'') \<or>
           (\<exists>b. c = Write (TrimSuffix absPath ''/'' @ ''.cloak'') b))))"
  using Encrypt_calls [of _ E folderPath w]
  by (auto simp: Encrypt_def output_path_def sep_def Let_def)

theorem Encrypt_validates_before_password_witness:
  "Encrypt toy_env ''/home/u/missing'' world0 =
     ret (Some (Wrap ''cannot access folder'' (External ''no such file or directory''))) world0 None \<and>
   Encrypt toy_env ''/home/u/notes.txt'' world0 =
     ret (Some (New ''path is not a directory'')) world0 None \<and>
   Encrypt toy_env ''/home/u/old'' world0 =
     ret (Some (Errorf ''output file already exists'' ''/home/u/old.cloak'')) world0 None"
proof -
  note t = Encrypt_validates_before_password [of toy_env _ world0]
  have s1: "stat toy_env ''/home/u/missing'' = Inl (External ''no such file or directory'')"
    and s2: "stat toy_env ''/home/u/notes.txt'' = Inr False"
    and s3: "stat toy_env ''/home/u/old'' = Inr True"
    by (simp_all add: toy_env_def)
  have a: "Abs toy_env ''/home/u/old'' = Inr ''/home/u/old''"
    by code_simp
  have o: "TrimSuffix ''/home/u/old'' ''/'' @ ''.cloak'' = ''/home/u/old.cloak''"
    by code_simp
  have s4: "stat toy_env (TrimSuffix ''/home/u/old'' ''/'' @ ''.cloak'') = Inr False"
    by (simp only: o) (simp add: toy_env_def)
  from t [of "''/home/u/missing''"] s1
  have r1: "Encrypt toy_env ''/home/u/missing'' world0 =
     ret (Some (Wrap ''cannot access folder'' (External ''no such file or directory''))) world0 None"
    by blast
  from t [of "''/home/u/notes.txt''"] s2
  have r2: "Encrypt toy_env ''/home/u/notes.txt'' world0 =
     ret (Some (New ''path is not a directory'')) world0 None"
    by blast
  from t [of "''/home/u/old''"] s3 a s4
  have "Encrypt toy_env ''/home/u/old'' world0 =
     ret (Some (Errorf ''output file already exists'' (TrimSuffix ''/home/u/old'' ''/'' @ ''.cloak'')))
       world0 None"
    by blast
  then have r3: "Encrypt toy_env ''/home/u/old'' world0 =
     ret (Some (Errorf ''output file already exists'' ''/home/u/old.cloak'')) world0 None"
    by (simp only: o)
  from r1 r2 r3 show ?thesis by blast
qed

lemma evil_archive_eq: "evil_archive = [0, 1, 164, 4, 46, 46, 47, 120, 0, 1, 9]"
  by code_simp

lemma evil_key: "argon2id toy_lib [112, 119] (replicate 32 7) 3 65536 4 32 = replicate 32 34"
  by (simp add: toy_lib_def)

lemma evil_decode:
  "decode evil_container =
     Inr (replicate 32 7, replicate 12 9, replicate 32 34 @ replicate 12 9 @ evil_archive)"
proof -
  have ct: "gcm_seal toy_lib (replicate 32 34) (replicate 12 9) evil_archive =
      replicate 32 34 @ replicate 12 9 @ evil_archive"
    by (simp add: toy_lib_def)
  have "decode (encode (replicate 32 7) (replicate 12 9)
          (replicate 32 34 @ replicate 12 9 @ evil_archive)) =
        Inr (replicate 32 7, replicate 12 9, replicate 32 34 @ replicate 12 9 @ evil_archive)"
    by (rule decode_encode) (simp_all add: evil_archive_eq)
  then show ?thesis by (simp add: evil_container_def evil_key ct)
qed

lemma evil_stat: "stat toy_env ''/home/u/evil.cloak'' = Inr False"
  by (simp add: toy_env_def)

lemma evil_file: "file_content toy_env ''/home/u/evil.cloak'' = Inr evil_container"
  by (simp add: toy_env_def)

lemma evil_password:
  "ReadPasswordSecure toy_env prompt world0 =
     (Inr \<lparr>Data = Some \<lparr>arr = 0, len = 2\<rparr>\<rparr>,
      \<lparr>memory = \<lparr>heap = (\<lambda>a. [])(0 := [112, 119]), next_free = 1\<rparr>,
       calls = [], prompts = [prompt], drawn = 0\<rparr>)"
  by (simp add: ReadPasswordSecure_def toy_env_def world0_def mem0_def alloc_def Let_def)

lemma evil_abs: "Abs toy_env ''/home/u/evil.cloak'' = Inr ''/home/u/evil.cloak''"
  by code_simp

lemma evil_dir: "Dir ''/home/u/evil.cloak'' = ''/home/u''"
  by code_simp

lemma evil_extract:
  "ExtractArchive toy_archive all_ok [0, 1, 164, 4, 46, 46, 47, 120, 0, 1, 9] ''/home/u'' [] =
     (Some (Errorf ''invalid path in archive'' ''../x''), [])"
  by code_simp


lemma evil_decrypt:
  "DecryptData toy_lib (replicate 32 34 @ replicate 12 9 @ evil_archive) (replicate 32 34)
     (replicate 12 9) = Inr evil_archive"
  by (simp add: DecryptData_def aes_NewCipher_def cipher_NewGCM_def gcm_Open_def toy_lib_def)

lemma toy_env_fields:
  "crypto toy_env = toy_lib" "archiver toy_env = toy_archive" "opsys toy_env = all_ok"
  by (simp_all add: toy_env_def)

lemma evil_extract_archive:
  "ExtractArchive toy_archive all_ok evil_archive ''/home/u'' [] =
     (Some (Errorf ''invalid path in archive'' ''../x''), [])"
  using evil_extract by (simp only: evil_archive_eq)

lemma evil_length: "length evil_archive = 11"
  by (simp add: evil_archive_eq)

lemma evil_DeriveKey:
  "DeriveKey toy_lib [112, 119] (replicate 32 7) m =
     (Inr \<lparr>Data = Some \<lparr>arr = next_free m, len = 32\<rparr>\<rparr>,
      m\<lparr>heap := (heap m)(next_free m := replicate 32 34), next_free := Suc (next_free m)\<rparr>)"
  by (simp add: DeriveKey_eq alloc_def toy_lib_def)

lemma zero_loop_2: "zero_loop 2 [112, 119] = [0, 0]"
  by (simp add: zero_loop_eq numeral_2_eq_2)

lemma zero_loop_32: "zero_loop 32 (replicate 32 34) = replicate 32 0"
  by (simp add: zero_loop_eq)

lemmas evil_steps =
  Decrypt_def evil_stat evil_file evil_decode evil_password evil_DeriveKey
  Decrypt_keyed_def toy_env_fields data_bytes_def read_slice_def evil_decrypt
  alloc_def evil_length evil_abs evil_dir evil_extract_archive ret_def defer_Wipe_def
  Wipe_def zero_slice_def zero_loop_2 zero_loop_32 Let_def

text \<open>
  C7, which the code does not keep. When \<open>Decrypt\<close> has read a well-formed
  container and a password, has decrypted the archive, and \<open>ExtractArchive\<close> then
  fails, \<open>Decrypt\<close> returns "failed to extract archive" and the local variable
  \<open>archive\<close> still points to the whole decrypted archive: the return comes before
  the loop that would zero it. (The password and the key, wiped by deferred calls,
  are zero at the same exit, as the evaluation below shows.)
\<close>

theorem Decrypt_failed_extraction_leaves_plaintext:
  assumes "stat E filePath = Inr False"
    and "file_content E filePath = Inr data"
    and "decode data = Inr (salt, nonce, ciphertext)"
    and "is_terminal E"
    and "typed E (length (prompts w)) = Inr password"
    and "password \<noteq> []"
    and "DecryptData (crypto E) ciphertext
           (argon2id (crypto E) password salt 3 65536 4 32) nonce = Inr plain"
    and "Abs E filePath = Inr absPath"
    and "ExtractArchive (archiver E) (opsys E) plain (Dir absPath) (calls w) = (Some e, hist)"
  shows "result (Decrypt E filePath w) = Some (Wrap ''failed to extract archive'' e) \<and>
         archive_var (Decrypt E filePath w) =
           Some \<lparr>arr = next_free (memory w) + 2, len = length plain\<rparr> \<and>
         heap (memory (final (Decrypt E filePath w))) (next_free (memory w) + 2) = plain"
proof -
  let ?n = "next_free (memory w)"
  let ?key = "argon2id (crypto E) password salt 3 65536 4 32"
  let ?m1 = "\<lparr>heap = (heap (memory w))(?n := password), next_free = Suc ?n\<rparr>"
  let ?w1 = "w\<lparr>prompts := prompts w @ [''Enter decryption password: ''], memory := ?m1\<rparr>"
  have rp: "ReadPasswordSecure E ''Enter decryption password: '' w =
      (Inr \<lparr>Data = Some \<lparr>arr = ?n, len = length password\<rparr>\<rparr>, ?w1)"
    using assms(4,5,6) by (simp add: ReadPasswordSecure_def alloc_def Let_def)
  have pb: "data_bytes ?m1 \<lparr>Data = Some \<lparr>arr = ?n, len = length password\<rparr>\<rparr> = password"
    by (simp add: data_bytes_def read_slice_def)
  let ?m2 = "\<lparr>heap = (heap (memory w))(?n := password, Suc ?n := ?key), next_free = Suc (Suc ?n)\<rparr>"
  have dk: "DeriveKey (crypto E) password salt ?m1 =
      (Inr \<lparr>Data = Some \<lparr>arr = Suc ?n, len = length ?key\<rparr>\<rparr>, ?m2)"
    by (simp add: DeriveKey_eq alloc_def Let_def)
  have kb: "data_bytes ?m2 \<lparr>Data = Some \<lparr>arr = Suc ?n, len = length ?key\<rparr>\<rparr> = ?key"
    by (simp add: data_bytes_def read_slice_def)
  show ?thesis
    by (simp add: Decrypt_def assms(1,2,3) rp pb dk kb Decrypt_keyed_def assms(7,8,9)
        alloc_def read_slice_def ret_def defer_Wipe_def Wipe_def zero_slice_def Let_def)
qed

theorem Decrypt_leaves_archive_unwiped:
  "result (Decrypt toy_env ''/home/u/evil.cloak'' world0) =
     Some (Wrap ''failed to extract archive'' (Errorf ''invalid path in archive'' ''../x'')) \<and>
   archive_var (Decrypt toy_env ''/home/u/evil.cloak'' world0) = Some \<lparr>arr = 2, len = 11\<rparr> \<and>
   heap (memory (final (Decrypt toy_env ''/home/u/evil.cloak'' world0))) 2 =
     [0, 1, 164, 4, 46, 46, 47, 120, 0, 1, 9] \<and>
   heap (memory (final (Decrypt toy_env ''/home/u/evil.cloak'' world0))) 0 = [0, 0] \<and>
   heap (memory (final (Decrypt toy_env ''/home/u/evil.cloak'' world0))) 1 = replicate 32 0"
proof -
  have t: "is_terminal toy_env" and p: "typed toy_env (length (prompts world0)) = Inr [112, 119]"
    and n: "[112, 119] \<noteq> ([] :: bytes)"
    by (simp_all add: toy_env_def)
  have d: "DecryptData (crypto toy_env) (replicate 32 34 @ replicate 12 9 @ evil_archive)
      (argon2id (crypto toy_env) [112, 119] (replicate 32 7) 3 65536 4 32) (replicate 12 9) =
      Inr evil_archive"
    by (simp only: toy_env_fields evil_key evil_decrypt)
  have x: "ExtractArchive (archiver toy_env) (opsys toy_env) evil_archive
      (Dir ''/home/u/evil.cloak'') (calls world0) =
      (Some (Errorf ''invalid path in archive'' ''../x''), [])"
    by (simp add: toy_env_fields evil_dir evil_extract_archive world0_def)
  have m: "next_free (memory world0) + 2 = 2"
    by (simp add: world0_def mem0_def)
  note g = Decrypt_failed_extraction_leaves_plaintext
    [OF evil_stat evil_file evil_decode t p n d evil_abs x, unfolded m evil_length]
  have w: "heap (memory (final (Decrypt toy_env ''/home/u/evil.cloak'' world0))) 0 = [0, 0] \<and>
      heap (memory (final (Decrypt toy_env ''/home/u/evil.cloak'' world0))) 1 = replicate 32 0"
    by (simp add: evil_steps)
  from g w show ?thesis by (simp add: evil_archive_eq)
qed

subsection \<open>Cleaned paths\<close>

lemma split_sep_nonempty [simp]: "split_sep s \<noteq> []"
  by (induction s) (auto split: list.splits)

lemma split_sep_no_sep: "sep \<notin> set s \<Longrightarrow> split_sep s = [s]"
  by (induction s) (auto split: list.splits)

lemma split_sep_append: "split_sep (a @ sep # b) = split_sep a @ split_sep b"
  by (induction a) (auto split: list.splits)

lemma split_sep_elems: "e \<in> set (split_sep s) \<Longrightarrow> sep \<notin> set e"
proof (induction s arbitrary: e)
  case Nil
  then show ?case by simp
next
  case (Cons c s)
  then show ?case by (cases "split_sep s") (auto split: if_splits)
qed

lemma join_sep_snoc: "xs \<noteq> [] \<Longrightarrow> join_sep (xs @ [n]) = join_sep xs @ sep # n"
  by (induction xs rule: join_sep.induct) auto

lemma join_sep_Cons: "xs \<noteq> [] \<Longrightarrow> join_sep (x # xs) = x @ sep # join_sep xs"
  by (cases xs) auto

lemma split_join:
  "xs \<noteq> [] \<Longrightarrow> (\<forall>e \<in> set xs. sep \<notin> set e) \<Longrightarrow> split_sep (join_sep xs) = xs"
proof (induction xs rule: join_sep.induct)
  case 1
  then show ?case by simp
next
  case (2 e)
  then show ?case by (simp add: split_sep_no_sep)
next
  case (3 e v va)
  then show ?case by (simp add: split_sep_append split_sep_no_sep)
qed

lemma clean_elems_append:
  "clean_elems r out (xs @ ys) = clean_elems r (clean_elems r out xs) ys"
  by (induction xs arbitrary: out) auto

lemma clean_elems_names:
  "(\<forall>p \<in> set ps. proper_name p) \<Longrightarrow> clean_elems r out ps = out @ ps"
  by (induction ps arbitrary: out) (auto simp: proper_name_def)

lemma clean_elems_dotdots:
  "\<not> r \<Longrightarrow> clean_elems r (replicate j ''..'') (replicate k ''..'') = replicate (j + k) ''..''"
proof (induction k arbitrary: j)
  case 0
  then show ?case by simp
next
  case (Suc k)
  have l: "replicate j ''..'' \<noteq> [] \<Longrightarrow> last (replicate j ''..'') = ''..''"
    by (cases j) simp_all
  have a: "replicate j ''..'' @ [''..''] = replicate (Suc j) ''..''"
    by (simp add: replicate_append_same)
  have "clean_elems r (replicate j ''..'') (replicate (Suc k) ''..'') =
        clean_elems r (replicate j ''..'' @ [''..'']) (replicate k ''..'')"
    using Suc.prems l by auto
  also have "\<dots> = replicate (Suc j + k) ''..''"
    unfolding a using Suc.IH [OF Suc.prems, of "Suc j"] .
  finally show ?case by simp
qed

lemma clean_elems_cleanlist:
  assumes "cleanlist r xs"
  shows "clean_elems r [] xs = xs"
proof -
  from assms obtain k ps where xs: "xs = replicate k ''..'' @ ps"
    and ps: "\<forall>p \<in> set ps. proper_name p" and r: "r \<longrightarrow> k = 0"
    by (auto simp: cleanlist_def)
  show ?thesis
  proof (cases r)
    case True
    with r xs ps show ?thesis by (simp add: clean_elems_names)
  next
    case False
    then have "clean_elems r [] (replicate k ''..'') = replicate k ''..''"
      using clean_elems_dotdots [of r 0 k] by simp
    then show ?thesis by (simp add: xs clean_elems_append clean_elems_names ps)
  qed
qed


lemma cleanlist_Nil [simp]: "cleanlist r []"
  by (simp add: cleanlist_def)

lemma cleanlist_snoc: "cleanlist r xs \<Longrightarrow> proper_name n \<Longrightarrow> cleanlist r (xs @ [n])"
proof -
  assume "cleanlist r xs" and n: "proper_name n"
  then obtain k ps where "xs = replicate k ''..'' @ ps" "\<forall>p \<in> set ps. proper_name p" "r \<longrightarrow> k = 0"
    by (auto simp: cleanlist_def)
  then have "xs @ [n] = replicate k ''..'' @ (ps @ [n]) \<and> (\<forall>p \<in> set (ps @ [n]). proper_name p) \<and>
      (r \<longrightarrow> k = 0)" using n by simp
  then show ?thesis unfolding cleanlist_def by blast
qed

lemma cleanlist_append:
  "cleanlist r xs \<Longrightarrow> (\<forall>n \<in> set ns. proper_name n) \<Longrightarrow> cleanlist r (xs @ ns)"
proof (induction ns rule: rev_induct)
  case Nil
  then show ?case by simp
next
  case (snoc n ns)
  then have "cleanlist r ((xs @ ns) @ [n])" by (intro cleanlist_snoc) simp_all
  then show ?case by simp
qed

lemma cleanlist_step:
  assumes "cleanlist r out" and "sep \<notin> set e"
  shows "cleanlist r (clean_elems r out [e])"
proof -
  from assms(1) obtain k ps where out: "out = replicate k ''..'' @ ps"
    and ps: "\<forall>p \<in> set ps. proper_name p" and r: "r \<longrightarrow> k = 0"
    by (auto simp: cleanlist_def)
  consider "e = [] \<or> e = ''.''" | "e = ''..''" | "proper_name e"
    using assms(2) by (auto simp: proper_name_def)
  then show ?thesis
  proof cases
    case 1
    then show ?thesis using assms(1) by auto
  next
    case 2
    show ?thesis
    proof (cases "ps = []")
      case True
      have l: "replicate k ''..'' \<noteq> [] \<Longrightarrow> last (replicate k ''..'') = ''..''"
        by (cases k) simp_all
      have a: "replicate k ''..'' @ [''..''] = replicate (Suc k) ''..'' @ []"
        by (simp add: replicate_append_same)
      show ?thesis
      proof (cases r)
        case True
        with r \<open>ps = []\<close> out 2 show ?thesis by simp
      next
        case False
        have "clean_elems r out [e] = replicate (Suc k) ''..'' @ []"
          using False l a 2 by (auto simp: out \<open>ps = []\<close>)
        moreover have "\<forall>p \<in> set ([] :: string list). proper_name p" by simp
        ultimately show ?thesis unfolding cleanlist_def using False by blast
      qed
    next
      case False
      then have lp: "last out = last ps" and ne: "out \<noteq> []" by (simp_all add: out)
      have "proper_name (last ps)" using False ps by simp
      then have "last out \<noteq> ''..''" by (simp add: lp proper_name_def)
      then have c: "clean_elems r out [e] = butlast out" using 2 ne by simp
      have "butlast out = replicate k ''..'' @ butlast ps" using False by (simp add: out butlast_append)
      moreover have "\<forall>p \<in> set (butlast ps). proper_name p" using ps by (meson in_set_butlastD)
      ultimately show ?thesis unfolding cleanlist_def c using r by blast
    qed
  next
    case 3
    then have "clean_elems r out [e] = out @ [e]" by (auto simp: proper_name_def)
    then show ?thesis using cleanlist_snoc [OF assms(1) 3] by simp
  qed
qed

lemma cleanlist_clean_elems:
  "cleanlist r out \<Longrightarrow> (\<forall>e \<in> set es. sep \<notin> set e) \<Longrightarrow> cleanlist r (clean_elems r out es)"
proof (induction es arbitrary: out)
  case Nil
  then show ?case by simp
next
  case (Cons e es)
  have "clean_elems r out (e # es) = clean_elems r (clean_elems r out [e]) es"
    using clean_elems_append [of r out "[e]" es] by simp
  moreover have "cleanlist r (clean_elems r out [e])"
    using Cons.prems by (intro cleanlist_step) simp_all
  ultimately show ?case using Cons.IH Cons.prems by simp
qed

lemma cleanlist_split: "cleanlist r (clean_elems r [] (split_sep s))"
  by (intro cleanlist_clean_elems) (auto dest: split_sep_elems)

lemma cleanlist_no_sep:
  assumes "cleanlist r xs" and "e \<in> set xs"
  shows "sep \<notin> set e \<and> e \<noteq> [] \<and> e \<noteq> ''.''"
proof -
  from assms(1) obtain k ps where xs: "xs = replicate k ''..'' @ ps"
    and ps: "\<forall>p \<in> set ps. proper_name p"
    by (auto simp: cleanlist_def)
  from assms(2) xs consider "e = ''..''" | "e \<in> set ps" by auto
  then show ?thesis
  proof cases
    case 1
    then show ?thesis by (simp add: sep_def)
  next
    case 2
    with ps have "proper_name e" by simp
    then show ?thesis by (simp add: proper_name_def)
  qed
qed


lemma join_sep_not_rooted:
  assumes "xs \<noteq> []" and "\<forall>e \<in> set xs. sep \<notin> set e \<and> e \<noteq> []"
  shows "\<not> rooted (join_sep xs)" and "join_sep xs \<noteq> []"
proof -
  from assms obtain x rest where xs: "xs = x # rest" by (cases xs) auto
  with assms(2) obtain c cs where x: "x = c # cs" and c: "c \<noteq> sep" by (cases x) auto
  have "join_sep xs = c # (cs @ (if rest = [] then [] else sep # join_sep rest))"
    by (cases rest) (simp_all add: xs x)
  then show "\<not> rooted (join_sep xs)" and "join_sep xs \<noteq> []"
    using c by (simp_all add: rooted_def)
qed

lemma render_facts:
  assumes "cleanlist r xs"
  shows "render r xs \<noteq> []"
    and "rooted (render r xs) = r"
    and "clean_elems r [] (split_sep (render r xs)) = xs"
proof -
  have ns: "\<forall>e \<in> set xs. sep \<notin> set e \<and> e \<noteq> []"
    using cleanlist_no_sep [OF assms] by blast
  then have ns': "\<forall>e \<in> set xs. sep \<notin> set e" by blast
  have st: "clean_elems r [] xs = xs" using assms by (rule clean_elems_cleanlist)
  show "render r xs \<noteq> []"
    using join_sep_not_rooted(2) [OF _ ns] by (auto simp: render_def)
  show "rooted (render r xs) = r"
    using join_sep_not_rooted(1) [OF _ ns] by (auto simp: render_def rooted_def sep_def)
  show "clean_elems r [] (split_sep (render r xs)) = xs"
  proof (cases "xs = []")
    case True
    then show ?thesis by (simp add: render_def sep_def)
  next
    case False
    then have sj: "split_sep (join_sep xs) = xs" using ns' by (rule split_join)
    show ?thesis
    proof (cases r)
      case True
      then have "split_sep (render r xs) = [] # xs" by (simp add: render_def sj)
      then show ?thesis by (simp add: st)
    next
      case False
      then have "split_sep (render r xs) = xs" using \<open>xs \<noteq> []\<close> by (simp add: render_def sj)
      then show ?thesis by (simp add: st)
    qed
  qed
qed

lemma Clean_render: "cleanlist r xs \<Longrightarrow> Clean (render r xs) = render r xs"
  by (simp add: Clean_def render_facts)

lemma Clean_eq_render:
  "path \<noteq> [] \<Longrightarrow> Clean path = render (rooted path) (clean_elems (rooted path) [] (split_sep path))"
  by (simp add: Clean_def)

lemma rooted_append: "path \<noteq> [] \<Longrightarrow> rooted (path @ s) = rooted path"
  by (cases path) (simp_all add: rooted_def)

lemma Clean_child:
  assumes "path \<noteq> []" and "proper_name n"
  shows "Clean (path @ sep # n) =
           render (rooted path) (clean_elems (rooted path) [] (split_sep path) @ [n])"
proof -
  have "sep \<notin> set n" using assms(2) by (simp add: proper_name_def)
  then have "split_sep (path @ sep # n) = split_sep path @ [n]"
    by (simp add: split_sep_append split_sep_no_sep)
  moreover have "clean_elems (rooted path) (clean_elems (rooted path) [] (split_sep path)) [n] =
      clean_elems (rooted path) [] (split_sep path) @ [n]"
    using assms(2) by (intro clean_elems_names) simp
  ultimately show ?thesis
    using assms(1) by (simp add: Clean_def rooted_append clean_elems_append)
qed

lemma elems_render:
  assumes "cleanlist r xs" and "r \<or> xs \<noteq> []"
  shows "elems (render r xs) = xs"
proof -
  have ns: "\<forall>e \<in> set xs. sep \<notin> set e \<and> e \<noteq> []"
    using cleanlist_no_sep [OF assms(1)] by blast
  then have ns': "\<forall>e \<in> set xs. sep \<notin> set e" by blast
  have f: "filter (\<lambda>e. e \<noteq> []) xs = xs" using ns by (simp add: filter_id_conv)
  show ?thesis
  proof (cases "xs = []")
    case True
    with assms(2) show ?thesis by (simp add: elems_def render_def)
  next
    case False
    then have sj: "split_sep (join_sep xs) = xs" using ns' by (rule split_join)
    show ?thesis using False by (cases r) (simp_all add: elems_def render_def sj f)
  qed
qed

lemma strip_common_prefix: "strip_common xs (xs @ ys) = ([], ys)"
  by (induction xs) simp_all


lemma render_nonempty_ne_dot:
  assumes "cleanlist r xs" and "r \<or> xs \<noteq> []"
  shows "render r xs \<noteq> ''.''"
proof
  assume "render r xs = ''.''"
  then have "elems (render r xs) = elems ''.''" by simp
  then have "xs = [''.'']" using elems_render [OF assms] by (simp add: elems_def sep_def)
  then show False using cleanlist_no_sep [OF assms(1), of "''.''"] by simp
qed

lemma Rel_descend:
  assumes P: "cleanlist r P" and ns: "\<forall>n \<in> set ns. proper_name n" and ne: "ns \<noteq> []"
    and b: "Clean basepath = render r P" and t: "Clean targpath = render r (P @ ns)"
  shows "Rel basepath targpath = Inr (join_sep ns)"
proof -
  have X: "cleanlist r (P @ ns)" using P ns by (rule cleanlist_append)
  have et: "elems (render r (P @ ns)) = P @ ns" using X ne by (intro elems_render) simp_all
  have rt: "rooted (render r (P @ ns)) = r" using X by (rule render_facts)
  have nd: "render r (P @ ns) \<noteq> ''.''" using render_nonempty_ne_dot [OF X] ne by simp
  let ?base1 = "if render r P = ''.'' then [] else render r P"
  have eb: "elems ?base1 = P" and rb: "rooted ?base1 = r"
  proof -
    show "elems ?base1 = P"
    proof (cases "r \<or> P \<noteq> []")
      case True
      then show ?thesis
        using elems_render [OF P] render_nonempty_ne_dot [OF P] by simp
    next
      case False
      then show ?thesis by (simp add: render_def elems_def)
    qed
    show "rooted ?base1 = r"
    proof (cases "r \<or> P \<noteq> []")
      case True
      then show ?thesis
        using render_facts(2) [OF P] render_nonempty_ne_dot [OF P] by simp
    next
      case False
      then show ?thesis by (simp add: render_def rooted_def)
    qed
  qed
  have neq: "render r (P @ ns) \<noteq> render r P"
  proof
    assume e: "render r (P @ ns) = render r P"
    show False
    proof (cases "r \<or> P \<noteq> []")
      case True
      then have "elems (render r P) = P" using elems_render [OF P] by simp
      with e et ne show False by simp
    next
      case False
      then have "render r P = ''.''" by (simp add: render_def)
      with e render_nonempty_ne_dot [OF X] ne show False by simp
    qed
  qed
  show ?thesis
    unfolding Rel_def b t Let_def
    using neq nd by (simp only: if_False eb rb rt et strip_common_prefix) simp
qed


text \<open>
  \<open>Rel\<close> on some inputs, among them targets that are not below the base.
\<close>

lemma Rel_examples:
  "Rel ''a/b'' ''a/b/c/d'' = Inr ''c/d''"
  "Rel ''a/b/c/d'' ''a/b'' = Inr ''../..''"
  "Rel ''a/b'' ''c/d'' = Inr ''../../c/d''"
  "Rel ''.'' ''..'' = Inr ''..''"
  "Rel ''a'' ''.'' = Inr ''..''"
  "Rel ''..'' ''.'' = Inl (External ''Rel: can't make . relative to ..'')"
  "Rel ''../..'' ''..'' = Inl (External ''Rel: can't make .. relative to ../..'')"
  "Rel ''/a'' ''a'' = Inl (External ''Rel: can't make a relative to /a'')"
  by code_simp+

subsection \<open>The round trip\<close>

lemma dir_prefix_append:
  assumes "sep \<notin> set base" and "prefix = [] \<or> last prefix = sep"
  shows "dir_prefix (prefix @ base) = prefix"
proof -
  have "dropWhile (\<lambda>c. c \<noteq> sep) (rev base @ rev prefix) = dropWhile (\<lambda>c. c \<noteq> sep) (rev prefix)"
    using assms(1) by (intro dropWhile_append2) auto
  moreover have "dropWhile (\<lambda>c. c \<noteq> sep) (rev prefix) = rev prefix"
  proof (cases "prefix = []")
    case True
    then show ?thesis by simp
  next
    case False
    with assms(2) have "hd (rev prefix) = sep" by (simp add: hd_rev)
    with False show ?thesis by (cases "rev prefix") simp_all
  qed
  ultimately show ?thesis by (simp add: dir_prefix_def)
qed

lemma root_facts:
  assumes "proper_name base" and "prefix = [] \<or> last prefix = sep"
  defines "r \<equiv> rooted (prefix @ base)"
  defines "P \<equiv> clean_elems r [] (split_sep prefix)"
  shows "cleanlist r P"
    and "Clean (Dir (prefix @ base)) = render r P"
    and "clean_elems r [] (split_sep (prefix @ base)) = P @ [base]"
proof -
  have nb: "sep \<notin> set base" and b0: "base \<noteq> []" using assms(1) by (simp_all add: proper_name_def)
  show cl: "cleanlist r P" unfolding P_def by (rule cleanlist_split)
  have step: "clean_elems r P [base] = P @ [base]" using assms(1) by (intro clean_elems_names) simp
  have "Clean prefix = render r P \<and> clean_elems r [] (split_sep (prefix @ base)) = P @ [base]"
  proof (cases "prefix = []")
    case True
    have "\<not> rooted base" using nb b0 by (cases base) (auto simp: rooted_def)
    then have "\<not> r" by (simp add: r_def True)
    moreover have "P = []" by (simp add: P_def True)
    ultimately show ?thesis using step by (simp add: True Clean_def render_def split_sep_no_sep nb)
  next
    case False
    then have rp: "rooted prefix = r" by (simp add: r_def rooted_append)
    from False assms(2) obtain q where q: "prefix = q @ [sep]"
      by (metis append_butlast_last_id)
    have sp: "split_sep prefix = split_sep q @ [[]]"
      using split_sep_append [of q "[]"] by (simp add: q)
    have sb: "split_sep (prefix @ base) = split_sep q @ [base]"
      using split_sep_append [of q base] by (simp add: q split_sep_no_sep nb)
    have Pq: "P = clean_elems r [] (split_sep q)"
      by (simp add: P_def sp clean_elems_append)
    have "clean_elems r [] (split_sep (prefix @ base)) = P @ [base]"
      using step by (simp add: sb clean_elems_append Pq)
    moreover have "Clean prefix = render r P"
      using False by (simp add: Clean_def rp P_def)
    ultimately show ?thesis by simp
  qed
  then show "clean_elems r [] (split_sep (prefix @ base)) = P @ [base]" by simp
  have "Dir (prefix @ base) = Clean prefix"
    by (simp add: Dir_def dir_prefix_append [OF nb assms(2)])
  also have "\<dots> = render r P" by (simp add: \<open>Clean prefix = render r P \<and> _\<close>)
  finally show "Clean (Dir (prefix @ base)) = render r P"
    by (simp add: Clean_render cl)
qed

lemma archive_nodes_append:
  "archive_nodes A d (xs @ ys) =
     (case archive_nodes A d xs of
        Inl e \<Rightarrow> Inl e
      | Inr a \<Rightarrow> (case archive_nodes A d ys of Inl e \<Rightarrow> Inl e | Inr b \<Rightarrow> Inr (a @ b)))"
  by (induction xs) (auto split: sum.splits)

lemma archive_nodes_concat:
  assumes "\<And>x. x \<in> set xs \<Longrightarrow> archive_nodes A d (f x) = Inr (g x)"
  shows "archive_nodes A d (concat (map f xs)) = Inr (concat (map g xs))"
  using assms by (induction xs) (simp_all add: archive_nodes_append)


lemma archive_node_read_errors:
  "archive_node A d (p, NoLstat e) = Inl e"
  "archive_node A d (p, NoNames m e) = Inl e"
  "archive_node A d (p, NoHeader e) = Inl (Wrap ''failed to create tar header'' e)"
  by (simp_all add: archive_node_def)

lemma ArchiveDirectory_close_errors:
  assumes "archive_entries A d t = Inr ens"
  shows "tar_close_error A ens = Some e \<Longrightarrow>
           ArchiveDirectory A d t = Inl (Wrap ''failed to close tar writer'' e)"
    and "tar_close_error A ens = None \<Longrightarrow> gzip_close_error A ens = Some e \<Longrightarrow>
           ArchiveDirectory A d t = Inl (Wrap ''failed to close gzip writer'' e)"
  using assms by (simp_all add: ArchiveDirectory_def)

lemma archive_node_at:
  assumes P: "cleanlist r P" and ns: "\<forall>n \<in> set ns. proper_name n" and ne: "ns \<noteq> []"
    and d: "Clean (Dir dirPath) = render r P"
    and p: "path \<noteq> []" "rooted path = r" "clean_elems r [] (split_sep path) = P @ ns"
  shows "Rel (Dir dirPath) path = Inr (join_sep ns)"
proof -
  have "Clean path = render r (P @ ns)" using p by (simp add: Clean_def)
  with P ns ne d show ?thesis by (intro Rel_descend)
qed

lemma child_path:
  assumes P: "cleanlist r P" and ns: "\<forall>n \<in> set ns. proper_name n" and n: "proper_name n"
    and p: "path \<noteq> []" "rooted path = r" "clean_elems r [] (split_sep path) = P @ ns"
  shows "Join2 path n \<noteq> []" and "rooted (Join2 path n) = r"
    and "clean_elems r [] (split_sep (Join2 path n)) = P @ (ns @ [n])"
proof -
  have j: "Join2 path n = render r (P @ ns @ [n])"
    using Clean_child [OF p(1) n] p by (simp add: Join2_def)
  have c: "cleanlist r (P @ ns @ [n])"
    using cleanlist_append [OF P, of "ns @ [n]"] ns n by simp
  show "Join2 path n \<noteq> []" and "rooted (Join2 path n) = r"
    and "clean_elems r [] (split_sep (Join2 path n)) = P @ (ns @ [n])"
    using render_facts [OF c] by (simp_all add: j)
qed

lemma archive_walk:
  assumes "wf_tree t"
    and "cleanlist r P" and "\<forall>n \<in> set ns. proper_name n" and "ns \<noteq> []"
    and "Clean (Dir dirPath) = render r P"
    and "path \<noteq> []" and "rooted path = r" and "clean_elems r [] (split_sep path) = P @ ns"
    and "rel = join_sep ns"
    and "\<forall>en \<in> set (tree_entries rel t). write_header_error A (fst en) = None"
  shows "archive_nodes A dirPath (walk path t) = Inr (tree_entries rel t)"
  using assms
proof (induction rel t arbitrary: path ns rule: tree_entries.induct)
  case (1 rel m entries)
  have rl: "Rel (Dir dirPath) path = Inr rel"
    using archive_node_at [OF "1.prems"(2,3,4,5,6,7,8)] "1.prems"(9) by simp
  have hd: "write_header_error A \<lparr>Name = rel, Typeflag = TypeDir, Mode = m, Linkname = []\<rparr> = None"
    using "1.prems"(10) by simp
  have an: "archive_node A dirPath (path, Directory m entries) =
      Inr (\<lparr>Name = rel, Typeflag = TypeDir, Mode = m, Linkname = []\<rparr>, [])"
    by (simp add: archive_node_def rl hd)
  have ch: "archive_nodes A dirPath (case x of (name, n) \<Rightarrow> walk (Join2 path name) n) =
      Inr (case x of (name, n) \<Rightarrow> tree_entries (rel @ sep # name) n)"
    if x: "x \<in> set entries" for x
  proof -
    obtain name n where xn: "x = (name, n)" by (cases x)
    have pn: "proper_name name" and wf: "wf_tree n" using "1.prems"(1) x xn by auto
    note cp = child_path [OF "1.prems"(2,3) pn "1.prems"(6,7,8)]
    have rel': "rel @ sep # name = join_sep (ns @ [name])"
      using "1.prems"(4,9) by (simp add: join_sep_snoc)
    have ns': "\<forall>n \<in> set (ns @ [name]). proper_name n" using "1.prems"(3) pn by simp
    have he: "\<forall>en \<in> set (tree_entries (rel @ sep # name) n). write_header_error A (fst en) = None"
      using "1.prems"(10) x xn by fastforce
    have "archive_nodes A dirPath (walk (Join2 path name) n) =
        Inr (tree_entries (rel @ sep # name) n)"
      using "1.IH" [OF x xn [symmetric] wf "1.prems"(2) ns' _ "1.prems"(5) cp rel' he] by simp
    then show ?thesis by (simp add: xn)
  qed
  show ?case
    using an archive_nodes_concat [of entries A dirPath, OF ch] by simp
next
  case (2 rel m content)
  have rl: "Rel (Dir dirPath) path = Inr rel"
    using archive_node_at [OF "2.prems"(2,3,4,5,6,7,8)] "2.prems"(9) by simp
  show ?case using "2.prems"(10) by (simp add: archive_node_def rl)
next
  case (3 rel m target)
  have rl: "Rel (Dir dirPath) path = Inr rel"
    using archive_node_at [OF "3.prems"(2,3,4,5,6,7,8)] "3.prems"(9) by simp
  show ?case using "3.prems"(10) by (simp add: archive_node_def rl)
qed simp_all


lemma IsAbs_rooted: "IsAbs p = rooted p"
  by (cases p) (auto simp: IsAbs_def HasPrefix_def rooted_def)

lemma name_not_dotdot_prefixed:
  assumes "proper_name b" and "\<not> HasPrefix b ''..''"
  shows "\<not> HasPrefix (b @ after) ''..''"
proof
  assume "HasPrefix (b @ after) ''..''"
  then obtain r' where e: "b @ after = ''..'' @ r'" by (auto simp: HasPrefix_iff)
  from assms(1) obtain c cs where b: "b = c # cs" by (cases b) (auto simp: proper_name_def)
  show False
  proof (cases cs)
    case Nil
    with e b have c: "c = CHR ''.''" by simp
    with assms(1) b Nil show False by (simp add: proper_name_def)
  next
    case (Cons c2 cs2)
    with e b have "b = ''..'' @ cs2" by simp
    then have "HasPrefix b ''..''" by (auto simp: HasPrefix_iff)
    with assms(2) show False by simp
  qed
qed

lemma rel_accepted:
  assumes "ns \<noteq> []" and "\<forall>n \<in> set ns. proper_name n" and "\<not> HasPrefix (hd ns) ''..''"
  shows "Clean (join_sep ns) = join_sep ns"
    and "\<not> HasPrefix (join_sep ns) ''..''"
    and "\<not> IsAbs (join_sep ns)"
proof -
  have c: "cleanlist False ns"
    unfolding cleanlist_def using assms(2) by (intro exI [of _ 0] exI [of _ ns]) simp
  have r: "render False ns = join_sep ns" using assms(1) by (simp add: render_def)
  show "Clean (join_sep ns) = join_sep ns" using Clean_render [OF c] by (simp add: r)
  show "\<not> IsAbs (join_sep ns)" using render_facts(2) [OF c] by (simp add: r IsAbs_rooted)
  from assms(1) obtain b rest where ns: "ns = b # rest" by (cases ns) auto
  have j: "join_sep ns = b @ (if rest = [] then [] else sep # join_sep rest)"
    by (cases rest) (simp_all add: ns)
  show "\<not> HasPrefix (join_sep ns) ''..''"
    unfolding j using assms(2,3) by (intro name_not_dotdot_prefixed) (simp_all add: ns)
qed

lemma run_ok_append:
  "run_ok sys hist (a @ b) = (run_ok sys hist a \<and> run_ok sys (hist @ a) b)"
  by (induction a arbitrary: hist) simp_all

lemma run_ok_all_ok: "run_ok all_ok hist cs"
  by (induction cs arbitrary: hist) (simp_all add: all_ok_def)

lemma extract_loop_concat:
  assumes "\<And>x hist rest. x \<in> set xs \<Longrightarrow> run_ok sys hist (c x) \<Longrightarrow>
     extract_loop sys d (g x @ rest) ending hist = extract_loop sys d rest ending (hist @ c x)"
    and "run_ok sys hist (concat (map c xs))"
  shows "extract_loop sys d (concat (map g xs) @ rest) ending hist =
         extract_loop sys d rest ending (hist @ concat (map c xs))"
  using assms by (induction xs arbitrary: hist) (simp_all add: run_ok_append)

lemma extract_tree:
  assumes "wf_tree t"
    and "\<forall>n \<in> set ns. proper_name n" and "ns \<noteq> []" and "\<not> HasPrefix (hd ns) ''..''"
    and "rel = join_sep ns"
    and "run_ok sys hist (recreate d rel t)"
  shows "extract_loop sys d (tree_entries rel t @ rest) ending hist =
         extract_loop sys d rest ending (hist @ recreate d rel t)"
  using assms
proof (induction rel t arbitrary: ns hist rest rule: tree_entries.induct)
  case (1 rel m entries)
  note acc = rel_accepted [OF "1.prems"(3,2,4), folded "1.prems"(5)]
  have ok: "sys hist (MkdirAll (Join2 d rel) m) = None" using "1.prems"(6) by simp
  have oks: "run_ok sys (hist @ [MkdirAll (Join2 d rel) m])
      (concat (map (\<lambda>(name, n). recreate d (rel @ sep # name) n) entries))"
    using "1.prems"(6) by simp
  have ch: "extract_loop sys d ((case x of (name, n) \<Rightarrow> tree_entries (rel @ sep # name) n) @ rest')
        ending hist' =
      extract_loop sys d rest' ending
        (hist' @ (case x of (name, n) \<Rightarrow> recreate d (rel @ sep # name) n))"
    if x: "x \<in> set entries"
      and r: "run_ok sys hist' (case x of (name, n) \<Rightarrow> recreate d (rel @ sep # name) n)"
    for x hist' rest'
  proof -
    obtain name n where xn: "x = (name, n)" by (cases x)
    have pn: "proper_name name" and wf: "wf_tree n" using "1.prems"(1) x xn by auto
    have rel': "rel @ sep # name = join_sep (ns @ [name])"
      using "1.prems"(3,5) by (simp add: join_sep_snoc)
    have ns': "\<forall>n \<in> set (ns @ [name]). proper_name n" using "1.prems"(2) pn by simp
    have h': "\<not> HasPrefix (hd (ns @ [name])) ''..''" using "1.prems"(3,4) by simp
    have ok': "run_ok sys hist' (recreate d (rel @ sep # name) n)"
      using r by (simp add: xn)
    show ?thesis
      using "1.IH" [OF x xn [symmetric] wf ns' _ h' rel' ok', of rest'] by (simp add: xn)
  qed
  have "extract_loop sys d (tree_entries rel (Directory m entries) @ rest) ending hist =
      extract_loop sys d
        (concat (map (\<lambda>(name, n). tree_entries (rel @ sep # name) n) entries) @ rest) ending
        (hist @ [MkdirAll (Join2 d rel) m])"
    using acc ok by (simp add: Let_def extract_entry_def call_def)
  also have "\<dots> = extract_loop sys d rest ending
      ((hist @ [MkdirAll (Join2 d rel) m]) @
       concat (map (\<lambda>(name, n). recreate d (rel @ sep # name) n) entries))"
    by (rule extract_loop_concat [OF ch oks])
  finally show ?case by simp
next
  case (2 rel m content)
  note acc = rel_accepted [OF "2.prems"(3,2,4), folded "2.prems"(5)]
  show ?case using acc "2.prems"(6) by (simp add: Let_def extract_entry_def call_def)
next
  case (3 rel m target)
  note acc = rel_accepted [OF "3.prems"(3,2,4), folded "3.prems"(5)]
  show ?case using acc "3.prems"(6) by (simp add: Let_def extract_entry_def call_def)
qed simp_all


lemma Base_append:
  assumes "proper_name base" and "prefix = [] \<or> last prefix = sep"
  shows "Base (prefix @ base) = base"
proof -
  have nb: "sep \<notin> set base" and b0: "base \<noteq> []" using assms(1) by (simp_all add: proper_name_def)
  have "last base \<noteq> sep" using nb b0 by (metis last_in_set)
  then have "hd (rev base) \<noteq> sep" using b0 by (simp add: hd_rev)
  then have s: "dropWhile (\<lambda>c. c = sep) (rev base @ rev prefix) = rev base @ rev prefix"
    using b0 by (cases "rev base") simp_all
  have t0: "takeWhile (\<lambda>c. c \<noteq> sep) (rev prefix) = []"
  proof (cases "prefix = []")
    case True
    then show ?thesis by simp
  next
    case False
    with assms(2) have "hd (rev prefix) = sep" by (simp add: hd_rev)
    with False show ?thesis by (cases "rev prefix") simp_all
  qed
  have "takeWhile (\<lambda>c. c \<noteq> sep) (rev base @ rev prefix) =
      rev base @ takeWhile (\<lambda>c. c \<noteq> sep) (rev prefix)"
    using nb by (intro takeWhile_append2) auto
  then have "takeWhile (\<lambda>c. c \<noteq> sep) (rev base @ rev prefix) = rev base"
    by (simp add: t0)
  then show ?thesis using b0 by (simp add: Base_def s Let_def)
qed

lemma crypto_roundtrip:
  assumes "length key = 32" and "length nonce = 12"
    and "gcm_open L key nonce (gcm_seal L key nonce blob) = Some blob"
    and "length blob \<le> gcm_max_plaintext"
  shows "EncryptData L blob key nonce = Inr (gcm_seal L key nonce blob)"
    and "DecryptData L (gcm_seal L key nonce blob) key nonce = Inr blob"
  using assms
  by (simp_all add: EncryptData_def DecryptData_def aes_NewCipher_def cipher_NewGCM_def
      gcm_Seal_def gcm_Open_def)

lemma derived_key_eq:
  "derived_key L password salt m = Some (argon2id L password salt 3 65536 4 32)"
  by (simp add: derived_key_def DeriveKey_eq alloc_def read_slice_def Let_def)

text \<open>
  C1, as the code has it. Take a well-formed tree: regular files, directories and
  symbolic links only, every name a name a directory can hold, and every node read
  without error (\<open>Lstat\<close>, the listing of a directory, \<open>tar.FileInfoHeader\<close>,
  \<open>Readlink\<close>, \<open>Open\<close> and the copy of a file all succeed). The tree is found at a
  path that ends in the name of its root (after any prefix that is empty or ends in
  a separator), where that name does not begin with \<open>..\<close>. Take a password, a
  salt and a 12-byte nonce. Suppose the tar writer accepts the headers of the tree,
  the tar and the gzip writer close without error, the readers give back the entries
  written, the derived key has 32 bytes, the archive is not longer than AES-GCM
  seals, and AES-GCM opens what it sealed under that key and nonce. Suppose the
  operating system lets the calls that recreate the tree through: each of them whose
  error \<open>ExtractArchive\<close> reads succeeds when it is made, after the calls before
  it; \<open>os.Remove\<close> and \<open>Close\<close>, whose errors are discarded, may fail. Then the
  archive holds the entries of the tree under the base name of the root, and
  archiving, encrypting, decrypting under the key derived again and extracting into
  a destination makes exactly the calls that recreate the tree under the destination
  and the base name: every directory, every file with its contents, every link with
  its target, and returns no error.
\<close>

theorem round_trip_reproduces_tree:
  assumes "wf_tree tree" and "proper_name base" and "\<not> HasPrefix base ''..''"
    and "prefix = [] \<or> last prefix = sep"
    and "\<forall>en \<in> set (tree_entries base tree). write_header_error A (fst en) = None"
    and "tar_close_error A (tree_entries base tree) = None"
    and "gzip_close_error A (tree_entries base tree) = None"
    and "tgz_decode A (tgz_encode A (tree_entries base tree)) = Inr (tree_entries base tree, None)"
    and "length (argon2id L password salt 3 65536 4 32) = 32" and "length nonce = 12"
    and "gcm_open L (argon2id L password salt 3 65536 4 32) nonce
           (gcm_seal L (argon2id L password salt 3 65536 4 32) nonce
              (tgz_encode A (tree_entries base tree))) =
         Some (tgz_encode A (tree_entries base tree))"
    and "length (tgz_encode A (tree_entries base tree)) \<le> gcm_max_plaintext"
    and "run_ok sys [] (recreate destDir base tree)"
  shows "Base (prefix @ base) = base \<and>
         archive_entries A (prefix @ base) tree = Inr (tree_entries base tree) \<and>
         round_trip A L sys (prefix @ base) tree password salt nonce destDir =
           (None, recreate destDir base tree)"
proof -
  let ?r = "rooted (prefix @ base)"
  let ?P = "clean_elems ?r [] (split_sep prefix)"
  let ?key = "argon2id L password salt 3 65536 4 32"
  let ?ens = "tree_entries base tree"
  note rf = root_facts [OF assms(2,4)]
  have ne: "prefix @ base \<noteq> []" using assms(2) by (simp add: proper_name_def)
  have ns: "\<forall>n \<in> set [base]. proper_name n" using assms(2) by simp
  have ae: "archive_entries A (prefix @ base) tree = Inr ?ens"
    unfolding archive_entries_def
    by (rule archive_walk [OF assms(1) rf(1) ns _ rf(2) ne refl, of base])
       (use rf(3) assms(5) in simp_all)
  then have ad: "ArchiveDirectory A (prefix @ base) tree = Inr (tgz_encode A ?ens)"
    by (simp add: ArchiveDirectory_def assms(6,7))
  note cr = crypto_roundtrip [OF assms(9,10,11,12)]
  have h: "\<not> HasPrefix (hd [base]) ''..''" using assms(3) by simp
  have "extract_loop sys destDir (?ens @ []) None [] =
      extract_loop sys destDir [] None ([] @ recreate destDir base tree)"
    by (rule extract_tree [OF assms(1) ns _ h _ assms(13)]) simp_all
  then have ex: "ExtractArchive A sys (tgz_encode A ?ens) destDir [] =
      (None, recreate destDir base tree)"
    by (simp add: ExtractArchive_def assms(8))
  have "round_trip A L sys (prefix @ base) tree password salt nonce destDir =
      (None, recreate destDir base tree)"
    by (simp add: round_trip_def ad derived_key_eq cr ex)
  with ae Base_append [OF assms(2,4)] show ?thesis by simp
qed


theorem round_trip_reproduces_tree_witness:
  "round_trip toy_archive toy_lib all_ok ''./docs'' docs_tree [112, 119] (replicate 32 7)
     (replicate 12 9) ''/tmp/out'' =
   (None,
    [MkdirAll ''/tmp/out/docs'' 493,
     MkdirAll ''/tmp/out/docs'' 493, OpenFile ''/tmp/out/docs/a.txt'' 420,
     Copy ''/tmp/out/docs/a.txt'' [104, 105], Close ''/tmp/out/docs/a.txt'',
     MkdirAll ''/tmp/out/docs'' 493, Remove ''/tmp/out/docs/link'',
     MkSymlink ''a.txt'' ''/tmp/out/docs/link'',
     MkdirAll ''/tmp/out/docs/sub'' 493,
     MkdirAll ''/tmp/out/docs/sub'' 493, OpenFile ''/tmp/out/docs/sub/b.txt'' 420,
     Copy ''/tmp/out/docs/sub/b.txt'' [119], Close ''/tmp/out/docs/sub/b.txt''])"
proof -
  have wf: "wf_tree docs_tree"
    by (simp add: docs_tree_def proper_name_def sep_def)
  have pb: "proper_name ''docs''" by (simp add: proper_name_def sep_def)
  have np: "\<not> HasPrefix ''docs'' ''..''" by (simp add: HasPrefix_def)
  have pr: "''./'' = [] \<or> last ''./'' = sep" by (simp add: sep_def)
  have wh: "\<forall>en \<in> set (tree_entries ''docs'' docs_tree).
      write_header_error toy_archive (fst en) = None"
    by (simp add: toy_archive_def)
  have td: "tgz_decode toy_archive (tgz_encode toy_archive (tree_entries ''docs'' docs_tree)) =
      Inr (tree_entries ''docs'' docs_tree, None)"
    by code_simp
  have lk: "length (argon2id toy_lib [112, 119] (replicate 32 7) 3 65536 4 32) = 32"
    by (simp add: toy_lib_def)
  have ln: "length (replicate 12 (9::byte)) = 12" by simp
  have go: "gcm_open toy_lib (argon2id toy_lib [112, 119] (replicate 32 7) 3 65536 4 32)
      (replicate 12 9)
      (gcm_seal toy_lib (argon2id toy_lib [112, 119] (replicate 32 7) 3 65536 4 32)
         (replicate 12 9) (tgz_encode toy_archive (tree_entries ''docs'' docs_tree))) =
      Some (tgz_encode toy_archive (tree_entries ''docs'' docs_tree))"
    by (simp add: toy_lib_def)
  have "length (tgz_encode toy_archive (tree_entries ''docs'' docs_tree)) = 83"
    by code_simp
  then have sz: "length (tgz_encode toy_archive (tree_entries ''docs'' docs_tree)) \<le>
      gcm_max_plaintext"
    by (simp add: gcm_max_plaintext_def)
  have tc: "tar_close_error toy_archive (tree_entries ''docs'' docs_tree) = None"
    and gc: "gzip_close_error toy_archive (tree_entries ''docs'' docs_tree) = None"
    by (simp_all add: toy_archive_def)
  have ok: "run_ok all_ok [] (recreate ''/tmp/out'' ''docs'' docs_tree)"
    by (rule run_ok_all_ok)
  have rc: "recreate ''/tmp/out'' ''docs'' docs_tree =
    [MkdirAll ''/tmp/out/docs'' 493,
     MkdirAll ''/tmp/out/docs'' 493, OpenFile ''/tmp/out/docs/a.txt'' 420,
     Copy ''/tmp/out/docs/a.txt'' [104, 105], Close ''/tmp/out/docs/a.txt'',
     MkdirAll ''/tmp/out/docs'' 493, Remove ''/tmp/out/docs/link'',
     MkSymlink ''a.txt'' ''/tmp/out/docs/link'',
     MkdirAll ''/tmp/out/docs/sub'' 493,
     MkdirAll ''/tmp/out/docs/sub'' 493, OpenFile ''/tmp/out/docs/sub/b.txt'' 420,
     Copy ''/tmp/out/docs/sub/b.txt'' [119], Close ''/tmp/out/docs/sub/b.txt'']"
    by code_simp
  have ap: "''./'' @ ''docs'' = ''./docs''" by simp
  note t = round_trip_reproduces_tree [OF wf pb np pr wh tc gc td lk ln go sz ok, unfolded ap rc]
  then show ?thesis by blast
qed

lemma dotdot_archive:
  "archive_entries toy_archive ''/home/u/..config'' dotdot_tree = Inr dotdot_entries"
  by code_simp

lemma dotdot_decode:
  "tgz_decode toy_archive (tgz_encode toy_archive dotdot_entries) = Inr (dotdot_entries, None)"
  by code_simp

theorem round_trip_counterexample:
  "round_trip toy_archive toy_lib all_ok ''/home/u/..config'' dotdot_tree
     [112, 119] (replicate 32 7) (replicate 12 9) ''/tmp/out'' =
   (Some (Errorf ''invalid path in archive'' ''..config''), [])"
proof -
  let ?blob = "tgz_encode toy_archive dotdot_entries"
  let ?key = "argon2id toy_lib [112, 119] (replicate 32 7) 3 65536 4 32"
  have cl: "tar_close_error toy_archive dotdot_entries = None"
    "gzip_close_error toy_archive dotdot_entries = None"
    by (simp_all add: toy_archive_def)
  have ad: "ArchiveDirectory toy_archive ''/home/u/..config'' dotdot_tree = Inr ?blob"
    by (simp add: ArchiveDirectory_def dotdot_archive cl)
  have lk: "length ?key = 32" by (simp add: toy_lib_def)
  have ln: "length (replicate 12 (9::byte)) = 12" by simp
  have go: "gcm_open toy_lib ?key (replicate 12 9) (gcm_seal toy_lib ?key (replicate 12 9) ?blob) =
      Some ?blob"
    by (simp add: toy_lib_def)
  have "length ?blob = 36" by code_simp
  then have sz: "length ?blob \<le> gcm_max_plaintext" by (simp add: gcm_max_plaintext_def)
  note cr = crypto_roundtrip [OF lk ln go sz]
  have d: "tgz_decode toy_archive ?blob =
      Inr ([] @ (\<lparr>Name = ''..config'', Typeflag = TypeDir, Mode = 493, Linkname = []\<rparr>, []) #
           [(\<lparr>Name = ''..config/a.txt'', Typeflag = TypeReg, Mode = 420, Linkname = []\<rparr>,
             [104, 105])], None)"
    using dotdot_decode by (simp add: dotdot_entries_def)
  have p: "HasPrefix (Clean (Name \<lparr>Name = ''..config'', Typeflag = TypeDir, Mode = 493,
      Linkname = []\<rparr>)) ''..'' \<or>
      IsAbs (Clean (Name \<lparr>Name = ''..config'', Typeflag = TypeDir, Mode = 493, Linkname = []\<rparr>))"
    using dotdot_name by simp
  have ex: "ExtractArchive toy_archive all_ok ?blob ''/tmp/out'' [] =
      (Some (Errorf ''invalid path in archive'' ''..config''), [])"
    using extract_reject_at [OF d p, of all_ok "''/tmp/out''" "[]"] by simp
  show ?thesis
    by (simp add: round_trip_def ad derived_key_eq cr ex)
qed

subsection \<open>Where extraction writes\<close>

lemma accepted_name:
  assumes "\<not> HasPrefix (Clean name) ''..''" and "\<not> IsAbs (Clean name)"
  shows "\<exists>ps. (\<forall>p \<in> set ps. proper_name p) \<and> Clean name = render False ps"
proof (cases "name = []")
  case True
  then have "Clean name = render False []" by (simp add: Clean_def render_def)
  then show ?thesis by (intro exI [of _ "[]"]) simp
next
  case False
  let ?r = "rooted name"
  let ?X = "clean_elems ?r [] (split_sep name)"
  have c: "cleanlist ?r ?X" by (rule cleanlist_split)
  have e: "Clean name = render ?r ?X" using False by (simp add: Clean_def)
  have "\<not> ?r" using assms(2) render_facts(2) [OF c] by (simp add: e IsAbs_rooted)
  from c obtain k ps where X: "?X = replicate k ''..'' @ ps" and ps: "\<forall>p \<in> set ps. proper_name p"
    by (auto simp: cleanlist_def)
  have "k = 0"
  proof (rule ccontr)
    assume "k \<noteq> 0"
    then obtain k' where k: "k = Suc k'" by (cases k) auto
    have "render False ?X = ''..'' @ (if replicate k' ''..'' @ ps = [] then []
        else sep # join_sep (replicate k' ''..'' @ ps))"
      by (cases "replicate k' ''..'' @ ps") (simp_all add: X k render_def)
    then have "HasPrefix (Clean name) ''..''"
      using \<open>\<not> ?r\<close> by (simp add: e HasPrefix_iff)
    with assms(1) show False by simp
  qed
  then have Xps: "?X = ps" using X by simp
  have rf: "?r = False" using \<open>\<not> ?r\<close> by simp
  have "Clean name = render ?r ps" by (simp only: e Xps)
  then have "Clean name = render False ps" by (simp only: rf)
  with ps show ?thesis by blast
qed

lemma path_elems_render: "cleanlist r xs \<Longrightarrow> path_elems (render r xs) = xs"
  by (simp add: path_elems_def render_facts)

lemma path_elems_empty: "path_elems [] = []"
  by (simp add: path_elems_def)

lemma Clean_path_elems: "Clean destDir = render (rooted destDir) (path_elems destDir)"
  by (simp add: Clean_def path_elems_def render_def rooted_def)

lemma target_path:
  assumes ps: "\<forall>p \<in> set ps. proper_name p"
  shows "Join2 destDir (render False ps) =
           render (rooted destDir) (path_elems destDir @ ps)"
proof (cases "destDir = []")
  case True
  have c: "cleanlist False ps"
    unfolding cleanlist_def using ps by (intro exI [of _ 0] exI [of _ ps]) simp
  have "Join2 [] (render False ps) = Clean (render False ps)"
    using render_facts(1) [OF c] by (simp add: Join2_def)
  then show ?thesis
    using Clean_render [OF c] by (simp add: True path_elems_empty rooted_def)
next
  case ne: False
  let ?r = "rooted destDir"
  have r: "rooted (destDir @ sep # render False ps) = ?r" using ne by (simp add: rooted_append)
  have ns: "\<forall>e \<in> set ps. sep \<notin> set e" using ps by (simp add: proper_name_def)
  have "clean_elems ?r [] (split_sep (destDir @ sep # render False ps)) =
      clean_elems ?r [] (split_sep destDir) @ ps"
  proof (cases "ps = []")
    case True
    have "split_sep (render False ps) = [''.'']" by (simp add: True render_def sep_def)
    then show ?thesis by (simp add: split_sep_append clean_elems_append True)
  next
    case False
    then have "split_sep (render False ps) = ps" using ns by (simp add: render_def split_join)
    then show ?thesis using ps by (simp add: split_sep_append clean_elems_append clean_elems_names)
  qed
  then show ?thesis using ne r by (simp add: Join2_def Clean_def path_elems_def)
qed

lemma inside_render:
  assumes ps: "\<forall>p \<in> set ps. proper_name p"
  shows "lexically_inside destDir (render (rooted destDir) (path_elems destDir @ ps))"
proof -
  let ?r = "rooted destDir"
  let ?D = "path_elems destDir"
  have cD: "cleanlist ?r ?D" unfolding path_elems_def by (rule cleanlist_split)
  have cX: "cleanlist ?r (?D @ ps)" using cD ps by (rule cleanlist_append)
  have eX: "path_elems (render ?r (?D @ ps)) = ?D @ ps" using cX by (rule path_elems_render)
  have rX: "rooted (render ?r (?D @ ps)) = ?r" using cX by (rule render_facts)
  have nd: "''..'' \<notin> set ps" using ps by (auto simp: proper_name_def)
  show ?thesis
    unfolding lexically_inside_def Let_def eX rX using nd by simp
qed

lemma cleanlist_butlast:
  assumes c: "cleanlist r (ys @ [n])" and n: "proper_name n"
  shows "cleanlist r ys"
proof -
  from c obtain k ps where e: "ys @ [n] = replicate k ''..'' @ ps"
    and ps: "\<forall>p \<in> set ps. proper_name p" and k: "r \<longrightarrow> k = 0"
    by (auto simp: cleanlist_def)
  show ?thesis
  proof (cases ps rule: rev_cases)
    case Nil
    with e have "n \<in> set (replicate k ''..'')" by (metis append_Nil2 in_set_conv_decomp)
    then have "n = ''..''" by simp
    with n show ?thesis by (simp add: proper_name_def)
  next
    case (snoc qs q)
    with e have "ys = replicate k ''..'' @ qs" by simp
    moreover have "\<forall>p \<in> set qs. proper_name p" using ps snoc by simp
    ultimately show ?thesis using k unfolding cleanlist_def by blast
  qed
qed

lemma render_snoc:
  "render r (ys @ [n]) =
     ((if r then [sep] else []) @ (if ys = [] then [] else join_sep ys @ [sep])) @ n"
  by (cases "ys = []") (simp_all add: render_def join_sep_snoc)

lemma Dir_render:
  assumes c: "cleanlist r (ys @ [n])" and pn: "proper_name n"
  shows "Dir (render r (ys @ [n])) = render r ys"
proof -
  have n: "sep \<notin> set n" using pn by (simp add: proper_name_def)
  have ys: "\<forall>e \<in> set ys. sep \<notin> set e \<and> e \<noteq> []" using cleanlist_no_sep [OF c] by simp
  have cy: "cleanlist r ys" using c pn by (rule cleanlist_butlast)
  let ?q = "(if r then [sep] else []) @ (if ys = [] then [] else join_sep ys @ [sep])"
  have l: "?q = [] \<or> last ?q = sep" by simp
  have dp: "dir_prefix (?q @ n) = ?q" using n l by (rule dir_prefix_append)
  have "Clean ?q = render r ys"
  proof (cases "ys = []")
    case True
    then show ?thesis by (simp add: Clean_def render_def rooted_def sep_def)
  next
    case False
    have sp: "split_sep (join_sep ys @ [sep]) = ys @ [[]]"
      using split_sep_append [of "join_sep ys" "[]"] split_join [OF False] ys by simp
    have nr: "\<not> rooted (join_sep ys)" and je: "join_sep ys \<noteq> []"
      using join_sep_not_rooted [OF False ys] by simp_all
    have rq: "rooted ?q = r" using nr je by (cases "join_sep ys") (simp_all add: rooted_def False)
    have sq: "clean_elems r [] (split_sep ?q) = ys"
    proof (cases r)
      case True
      have "split_sep ?q = [] # ys @ [[]]" using sp by (simp add: True False)
      then show ?thesis by (simp add: clean_elems_append clean_elems_cleanlist [OF cy])
    next
      case F: False
      have "split_sep ?q = ys @ [[]]" using sp by (simp add: F False)
      then show ?thesis by (simp add: clean_elems_append clean_elems_cleanlist [OF cy])
    qed
    have "?q \<noteq> []" using False by simp
    then have "Clean ?q = render (rooted ?q) (clean_elems (rooted ?q) [] (split_sep ?q))"
      by (rule Clean_eq_render)
    then show ?thesis by (simp only: rq sq)
  qed
  then show ?thesis by (simp only: render_snoc Dir_def dp)
qed

lemma target_facts:
  assumes a: "\<not> HasPrefix (Clean name) ''..''" "\<not> IsAbs (Clean name)"
  shows "lexically_inside destDir (Join2 destDir (Clean name))"
    and "lexically_inside destDir (Dir (Join2 destDir (Clean name))) \<or>
         Dir (Join2 destDir (Clean name)) = Dir (Clean destDir)"
proof -
  let ?r = "rooted destDir"
  let ?D = "path_elems destDir"
  from accepted_name [OF a] obtain ps where ps: "\<forall>p \<in> set ps. proper_name p"
    and c: "Clean name = render False ps" by blast
  have t: "Join2 destDir (Clean name) = render ?r (?D @ ps)"
    unfolding c using ps by (rule target_path)
  show "lexically_inside destDir (Join2 destDir (Clean name))"
    unfolding t using ps by (rule inside_render)
  show "lexically_inside destDir (Dir (Join2 destDir (Clean name))) \<or>
         Dir (Join2 destDir (Clean name)) = Dir (Clean destDir)"
  proof (cases ps rule: rev_cases)
    case Nil
    then show ?thesis using Clean_path_elems [of destDir] by (simp add: t)
  next
    case (snoc qs n)
    have cD: "cleanlist ?r ?D" unfolding path_elems_def by (rule cleanlist_split)
    have cX: "cleanlist ?r ((?D @ qs) @ [n])"
      using cleanlist_append [OF cD ps] by (simp add: snoc)
    have pn: "proper_name n" and qs: "\<forall>p \<in> set qs. proper_name p" using ps by (simp_all add: snoc)
    have "Dir (Join2 destDir (Clean name)) = render ?r (?D @ qs)"
      using Dir_render [OF cX pn] by (simp add: t snoc)
    then show ?thesis using inside_render [OF qs, of destDir] by simp
  qed
qed


lemma extract_entry_calls:
  assumes "lexically_inside destDir target"
    and "lexically_inside destDir (Dir target) \<or> Dir target = Dir (Clean destDir)"
  shows "\<exists>new. snd (extract_entry sys target h body hist) = hist @ new \<and>
           (\<forall>c \<in> set new. stays_inside destDir c)"
proof (cases "Typeflag h")
  case TypeReg
  show ?thesis
  proof (cases "sys hist (MkdirAll (Dir target) perm_0755)")
    case (Some e)
    then have "snd (extract_entry sys target h body hist) = hist @ [MkdirAll (Dir target) perm_0755]"
      by (simp add: extract_entry_def TypeReg call_def)
    then show ?thesis using assms by simp
  next
    case None
    let ?h1 = "hist @ [MkdirAll (Dir target) perm_0755]"
    show ?thesis
    proof (cases "sys ?h1 (OpenFile target (Mode h))")
      case (Some e)
      then have "snd (extract_entry sys target h body hist) =
          hist @ [MkdirAll (Dir target) perm_0755, OpenFile target (Mode h)]"
        using None by (simp add: extract_entry_def TypeReg call_def)
      then show ?thesis using assms by simp
    next
      case None2: None
      have "snd (extract_entry sys target h body hist) =
          hist @ [MkdirAll (Dir target) perm_0755, OpenFile target (Mode h),
                  Copy target body, Close target]"
        using None None2 by (simp add: extract_entry_def TypeReg call_def split: option.splits)
      then show ?thesis using assms by simp
    qed
  qed
next
  case TypeDir
  have "snd (extract_entry sys target h body hist) = hist @ [MkdirAll target (Mode h)]"
    by (simp add: extract_entry_def TypeDir call_def split: option.splits)
  then show ?thesis using assms by simp
next
  case TypeSymlink
  show ?thesis
  proof (cases "sys hist (MkdirAll (Dir target) perm_0755)")
    case (Some e)
    then have "snd (extract_entry sys target h body hist) = hist @ [MkdirAll (Dir target) perm_0755]"
      by (simp add: extract_entry_def TypeSymlink call_def)
    then show ?thesis using assms by simp
  next
    case None
    then have "snd (extract_entry sys target h body hist) =
        hist @ [MkdirAll (Dir target) perm_0755, Remove target, MkSymlink (Linkname h) target]"
      by (simp add: extract_entry_def TypeSymlink call_def split: option.splits)
    then show ?thesis using assms by simp
  qed
next
  case TypeOther
  then have "snd (extract_entry sys target h body hist) = hist @ []"
    by (simp add: extract_entry_def)
  then show ?thesis by (intro exI [of _ "[]"]) simp
qed

lemma extract_loop_inside:
  shows "\<exists>new. snd (extract_loop sys destDir entries ending hist) = hist @ new \<and>
           (\<forall>c \<in> set new. stays_inside destDir c)"
proof (induction entries arbitrary: hist)
  case Nil
  show ?case by (intro exI [of _ "[]"]) (simp split: option.splits)
next
  case (Cons en entries)
  obtain h body where en: "en = (h, body)" by (cases en)
  show ?case
  proof (cases "HasPrefix (Clean (Name h)) ''..'' \<or> IsAbs (Clean (Name h))")
    case True
    then show ?thesis by (intro exI [of _ "[]"]) (simp add: en Let_def)
  next
    case False
    let ?t = "Join2 destDir (Clean (Name h))"
    from False have a: "\<not> HasPrefix (Clean (Name h)) ''..''" "\<not> IsAbs (Clean (Name h))"
      by simp_all
    note tf = target_facts [OF a, of destDir]
    from extract_entry_calls [OF tf, of sys h body hist]
    obtain new1 where n1: "snd (extract_entry sys ?t h body hist) = hist @ new1"
      and i1: "\<forall>c \<in> set new1. stays_inside destDir c" by blast
    obtain r1 where e1: "extract_entry sys ?t h body hist = (r1, hist @ new1)"
      using n1 by (cases "extract_entry sys ?t h body hist") simp
    show ?thesis
    proof (cases r1)
      case (Some e)
      then have "snd (extract_loop sys destDir (en # entries) ending hist) = hist @ new1"
        using False by (simp add: en Let_def e1)
      with i1 show ?thesis by blast
    next
      case None
      then have l: "extract_loop sys destDir (en # entries) ending hist =
          extract_loop sys destDir entries ending (hist @ new1)"
        using False by (simp add: en Let_def e1)
      from Cons.IH [of "hist @ new1"] obtain new2
        where n2: "snd (extract_loop sys destDir entries ending (hist @ new1)) = (hist @ new1) @ new2"
          and i2: "\<forall>c \<in> set new2. stays_inside destDir c" by blast
      have "snd (extract_loop sys destDir (en # entries) ending hist) = hist @ (new1 @ new2)"
        by (simp add: l n2)
      moreover have "\<forall>c \<in> set (new1 @ new2). stays_inside destDir c" using i1 i2 by auto
      ultimately show ?thesis by blast
    qed
  qed
qed

lemma ExtractArchive_inside:
  shows "\<exists>new. snd (ExtractArchive A sys data destDir hist) = hist @ new \<and>
           (\<forall>c \<in> set new. stays_inside destDir c)"
proof (cases "tgz_decode A data")
  case (Inl e)
  then show ?thesis by (intro exI [of _ "[]"]) (simp add: ExtractArchive_def)
next
  case (Inr p)
  obtain entries ending where p: "p = (entries, ending)" by (cases p)
  show ?thesis
    using extract_loop_inside [of sys destDir entries ending hist]
    by (simp add: ExtractArchive_def Inr p)
qed

text \<open>
  C3, as the code has it. When the tar reader returns an entry whose cleaned path
  escapes (it is \<open>..\<close> or begins with \<open>../\<close>) or is absolute, \<open>ExtractArchive\<close>
  returns an error, and the calls it has made to the file system are those for the
  entries before that one: none is made for the entry itself or for an entry after
  it. When the entries before it were extracted without error, the error is
  "invalid path in archive" with the name of the entry. Every call of the run names
  a path that is lexically inside the destination; \<open>MkdirAll\<close> may name the parent
  of the destination. The statement is about the paths the calls name: the target of
  a symbolic link is not checked, and where a call lands on a file system that holds
  such a link is not part of it.
\<close>

theorem ExtractArchive_rejects_traversal:
  assumes "tgz_decode A data = Inr (pre @ (h, body) # post, ending)"
    and "escapes (Clean (Name h)) \<or> IsAbs (Clean (Name h))"
  shows "fst (ExtractArchive A sys data destDir hist) \<noteq> None \<and>
         snd (ExtractArchive A sys data destDir hist) =
           snd (extract_loop sys destDir pre None hist) \<and>
         (fst (extract_loop sys destDir pre None hist) = None \<longrightarrow>
            fst (ExtractArchive A sys data destDir hist) =
              Some (Errorf ''invalid path in archive'' (Name h))) \<and>
         (\<exists>new. snd (ExtractArchive A sys data destDir hist) = hist @ new \<and>
                (\<forall>c \<in> set new. stays_inside destDir c))"
proof -
  have "HasPrefix (Clean (Name h)) ''..'' \<or> IsAbs (Clean (Name h))"
    using assms(2) escapes_HasPrefix by blast
  from extract_reject_at [OF assms(1) this, of sys destDir hist]
  have "fst (ExtractArchive A sys data destDir hist) \<noteq> None \<and>
      snd (ExtractArchive A sys data destDir hist) =
        snd (extract_loop sys destDir pre None hist) \<and>
      (fst (extract_loop sys destDir pre None hist) = None \<longrightarrow>
         fst (ExtractArchive A sys data destDir hist) =
           Some (Errorf ''invalid path in archive'' (Name h)))"
    by (auto split: prod.splits option.splits)
  with ExtractArchive_inside [of A sys data destDir hist] show ?thesis by blast
qed

theorem ExtractArchive_rejects_traversal_witness:
  "ExtractArchive toy_archive all_ok
     (tgz_encode toy_archive [ok_entry, bad_entry ''../../etc/passwd'', ok_entry]) ''/tmp/out'' [] =
     (Some (Errorf ''invalid path in archive'' ''../../etc/passwd''),
      [MkdirAll ''/tmp/out'' 493, OpenFile ''/tmp/out/ok.txt'' 420,
       Copy ''/tmp/out/ok.txt'' [1, 2, 3], Close ''/tmp/out/ok.txt'']) \<and>
   list_all (stays_inside ''/tmp/out'')
      [MkdirAll ''/tmp/out'' 493, OpenFile ''/tmp/out/ok.txt'' 420,
       Copy ''/tmp/out/ok.txt'' [1, 2, 3], Close ''/tmp/out/ok.txt''] \<and>
   ExtractArchive toy_archive all_ok
     (tgz_encode toy_archive [bad_entry ''/etc/passwd'', ok_entry]) ''/tmp/out'' [] =
     (Some (Errorf ''invalid path in archive'' ''/etc/passwd''), [])"
proof -
  let ?d1 = "tgz_encode toy_archive [ok_entry, bad_entry ''../../etc/passwd'', ok_entry]"
  let ?d2 = "tgz_encode toy_archive [bad_entry ''/etc/passwd'', ok_entry]"
  let ?run = "[MkdirAll ''/tmp/out'' 493, OpenFile ''/tmp/out/ok.txt'' 420,
       Copy ''/tmp/out/ok.txt'' [1, 2, 3], Close ''/tmp/out/ok.txt'']"
  have d1: "tgz_decode toy_archive ?d1 =
      Inr ([ok_entry] @ (fst (bad_entry ''../../etc/passwd''), [9]) # [ok_entry], None)"
    by code_simp
  have d2: "tgz_decode toy_archive ?d2 =
      Inr ([] @ (fst (bad_entry ''/etc/passwd''), [9]) # [ok_entry], None)"
    by code_simp
  have e1: "escapes (Clean (Name (fst (bad_entry ''../../etc/passwd'')))) \<or>
      IsAbs (Clean (Name (fst (bad_entry ''../../etc/passwd''))))"
    by code_simp
  have e2: "escapes (Clean (Name (fst (bad_entry ''/etc/passwd'')))) \<or>
      IsAbs (Clean (Name (fst (bad_entry ''/etc/passwd''))))"
    by code_simp
  have p1: "extract_loop all_ok ''/tmp/out'' [ok_entry] None [] = (None, ?run)"
    by code_simp
  have p2: "extract_loop all_ok ''/tmp/out'' [] None [] = (None, [])"
    by simp
  have n1: "Name (fst (bad_entry ''../../etc/passwd'')) = ''../../etc/passwd''"
    and n2: "Name (fst (bad_entry ''/etc/passwd'')) = ''/etc/passwd''"
    by (simp_all add: bad_entry_def)
  note t1 = ExtractArchive_rejects_traversal [OF d1 e1, of all_ok "''/tmp/out''" "[]", unfolded p1 n1]
  note t2 = ExtractArchive_rejects_traversal [OF d2 e2, of all_ok "''/tmp/out''" "[]", unfolded p2 n2]
  from t1 have r1: "ExtractArchive toy_archive all_ok ?d1 ''/tmp/out'' [] =
      (Some (Errorf ''invalid path in archive'' ''../../etc/passwd''), ?run)"
    by (simp add: prod_eq_iff)
  from t2 have r2: "ExtractArchive toy_archive all_ok ?d2 ''/tmp/out'' [] =
      (Some (Errorf ''invalid path in archive'' ''/etc/passwd''), [])"
    by (simp add: prod_eq_iff)
  from t1 obtain new where "snd (ExtractArchive toy_archive all_ok ?d1 ''/tmp/out'' []) = [] @ new"
    and "\<forall>c \<in> set new. stays_inside ''/tmp/out'' c" by blast
  with r1 have "list_all (stays_inside ''/tmp/out'') ?run" by (simp add: list_all_iff)
  with r1 r2 show ?thesis by (intro conjI)
qed

text \<open>
  The last clause of C3 as the specification states it, that no file is written
  outside the destination, fails. The archive holds a symbolic link \<open>lnk\<close> to
  \<open>/etc\<close>, a regular file \<open>lnk/passwd\<close> and an entry \<open>../x\<close>. Both first names
  pass the check. Extraction makes the link, then opens \<open>/tmp/out/lnk/passwd\<close> and
  writes it, and refuses the third entry after that. After the calls made before the
  file is opened, the operating system finds \<open>/tmp/out/lnk/passwd\<close> at
  \<open>/etc/passwd\<close>, which is not inside \<open>/tmp/out\<close>.
\<close>

theorem ExtractArchive_writes_through_symlink:
  "ExtractArchive toy_archive all_ok (tgz_encode toy_archive link_entries) ''/tmp/out'' [] =
     (Some (Errorf ''invalid path in archive'' ''../x''),
      [MkdirAll ''/tmp/out'' 493, Remove ''/tmp/out/lnk'', MkSymlink ''/etc'' ''/tmp/out/lnk'',
       MkdirAll ''/tmp/out/lnk'' 493, OpenFile ''/tmp/out/lnk/passwd'' 420,
       Copy ''/tmp/out/lnk/passwd'' [9], Close ''/tmp/out/lnk/passwd'']) \<and>
   resolved [MkdirAll ''/tmp/out'' 493, Remove ''/tmp/out/lnk'',
             MkSymlink ''/etc'' ''/tmp/out/lnk'', MkdirAll ''/tmp/out/lnk'' 493]
     ''/tmp/out/lnk/passwd'' = ''/etc/passwd'' \<and>
   \<not> lexically_inside ''/tmp/out'' ''/etc/passwd''"
proof -
  have d: "tgz_decode toy_archive (tgz_encode toy_archive link_entries) = Inr (link_entries, None)"
    by code_simp
  have l: "extract_loop all_ok ''/tmp/out'' link_entries None [] =
     (Some (Errorf ''invalid path in archive'' ''../x''),
      [MkdirAll ''/tmp/out'' 493, Remove ''/tmp/out/lnk'', MkSymlink ''/etc'' ''/tmp/out/lnk'',
       MkdirAll ''/tmp/out/lnk'' 493, OpenFile ''/tmp/out/lnk/passwd'' 420,
       Copy ''/tmp/out/lnk/passwd'' [9], Close ''/tmp/out/lnk/passwd''])"
    by code_simp
  have r: "resolved [MkdirAll ''/tmp/out'' 493, Remove ''/tmp/out/lnk'',
             MkSymlink ''/etc'' ''/tmp/out/lnk'', MkdirAll ''/tmp/out/lnk'' 493]
     ''/tmp/out/lnk/passwd'' = ''/etc/passwd''"
    by code_simp
  have n: "\<not> lexically_inside ''/tmp/out'' ''/etc/passwd''"
    by code_simp
  show ?thesis using l r n by (simp add: ExtractArchive_def d)
qed

end
